theory Spec2Isabelle
  imports Main "HOL-Library.Word"
begin

unbundle bit_operations_syntax

section \<open>Data model\<close>

text \<open>
  The network runtime of \<^verbatim>\<open>src/net\<close>: the libevent reactor
  (\<^verbatim>\<open>libevent_reactor.cc\<close>), the event loop (\<^verbatim>\<open>event_loop.h\<close>,
  \<^verbatim>\<open>event_loop.cc\<close>) and the TCP connection object (\<^verbatim>\<open>tcp_obj.cc\<close>).
  C++ objects are records, methods are functions that take the object and return the
  updated object, a failed \<^verbatim>\<open>assert\<close> and a null dereference are values of
  \<open>failure\<close>, and everything libevent or the operating system decides (whether a
  \<^verbatim>\<open>bufferevent\<close> could be created, which timers have expired) is an argument.
  The user's callbacks and closures act on the user's own state; what they do to the
  runtime from inside a call is not followed. Member names are the source's without the
  trailing underscore.
\<close>

type_synonym byte = "8 word"

type_synonym addr = nat

datatype failure = AssertFailed | NullDeref | BadFunctionCall | SignedOverflow

text \<open>
  The C++ \<^verbatim>\<open>int\<close> is 32 bits wide. Values are kept as \<open>int\<close> and every
  arithmetic result that can leave the range is wrapped by \<open>int32\<close>, the two's-complement
  behaviour of the atomic counters and of narrowing casts.
\<close>

definition int32 :: "int \<Rightarrow> int" where
  "int32 x = signed_take_bit 31 x"

definition INT_MAX :: int where
  "INT_MAX = 2147483647"

text \<open>C++ integer division and remainder truncate towards zero.\<close>

definition c_div :: "int \<Rightarrow> int \<Rightarrow> int" where
  "c_div a b = sgn a * sgn b * (\<bar>a\<bar> div \<bar>b\<bar>)"

definition c_mod :: "int \<Rightarrow> int \<Rightarrow> int" where
  "c_mod a b = a - b * c_div a b"

text \<open>
  Modelled from the spec: the event mask of \<^verbatim>\<open>reactor.h\<close>, which is not among the
  sources, is a bitmask over read and write; the two bits are taken as 1 and 2.
\<close>

definition kEventRead :: int where
  "kEventRead = 1"

definition kEventWrite :: int where
  "kEventWrite = 2"

datatype State = kNone | kConnecting | kConnected | kDisconnected | kFailed

datatype log_line = ERROR string | WARN string

datatype "value" = VVoid | VBool bool | VInt int

text \<open>
  What the user observes: the callbacks delivered, in order. \<open>Ran n\<close> records that the
  user closure labelled \<open>n\<close> was invoked (the label is ghost state, there to tell closures
  apart in a trace).
\<close>

datatype delivery =
    OnNewConn addr
  | OnMessage addr "byte list" int
  | OnDisconnect addr
  | OnConnectFail string int
  | Ran nat

text \<open>
  \<^verbatim>\<open>EventObject\<close> (declared in \<^verbatim>\<open>event_obj.h\<close>): the unique id, \<open>-1\<close> while
  unregistered, and the descriptor that the virtual \<^verbatim>\<open>Fd()\<close> returns.
\<close>

record EventObject =
  unique_id :: int
  fd :: int

text \<open>A libevent \<^verbatim>\<open>bufferevent\<close>: its two buffers and what has been enabled on it.\<close>

record bufferevent =
  input_buffer :: "byte list"
  output_buffer :: "byte list"
  readcb :: bool
  eventcb :: bool
  read_enabled :: bool

text \<open>
  \<^verbatim>\<open>TcpObject\<close>. The three notification callbacks are recorded by whether they are
  set; the message callback is a function of the user's state and the bytes it is shown,
  returning the number of bytes consumed. \<open>last_active\<close> is a reading of the steady
  clock.
\<close>

record ('i, 'u) TcpObject = EventObject +
  state :: State
  bev :: "bufferevent option"
  peer_ip :: string
  peer_port :: int
  on_message :: "('u \<Rightarrow> byte list \<Rightarrow> int \<times> 'u) option"
  on_disconnect :: bool
  on_fail :: bool
  on_new_conn :: bool
  idle_timer :: 'i
  idle_timeout_ms :: int
  last_active :: int

text \<open>
  The closures the runtime stores. A timer callback is either the user's (a state
  transformer with its ghost label) or the idle check that \<^verbatim>\<open>SetIdleTimeout\<close> builds
  around a weak reference. The work packaged by \<^verbatim>\<open>Execute\<close> is either the user's or one
  of the lambdas the runtime posts to itself.
\<close>

datatype 'u callback = UserCb nat "'u \<Rightarrow> 'u" | IdleCheck addr

datatype ('i, 'u) work =
    UserFn nat "'u \<Rightarrow> value \<times> 'u"
  | ArmTimer 'i int "'u callback" bool
  | CancelTimer 'i
  | Destroy addr

datatype ('i, 'u) task = Task nat "('i, 'u) work"

text \<open>
  \<^verbatim>\<open>LibeventReactor\<close>: per registered object the two optional watches (the descriptor
  watched, when present), and the timers by id. A timer keeps the flag and the timeout
  its libevent event was added with. \<open>'i\<close> is the type \<^verbatim>\<open>TimerId\<close>, whose
  declaration is not among the sources: the operations below take it as a signed
  machine integer \<open>'t word\<close> of any width \<open>'t\<close>.
\<close>

record Object =
  read_event :: "int option"
  write_event :: "int option"

record ('i, 'u) Timer =
  timer_id :: 'i
  repeat :: bool
  callback :: "'u callback"
  ev_persist :: bool
  tv_sec :: int
  tv_usec :: int

record ('i, 'u) LibeventReactor =
  reactor_objects :: "int \<rightharpoonup> Object"
  timers :: "'i \<rightharpoonup> ('i, 'u) Timer"

text \<open>
  \<^verbatim>\<open>PipeObject\<close>, the notifier: the bytes written and not yet read.
\<close>

record PipeObject = EventObject +
  pipe_bytes :: nat

record ('i, 'u) EventLoop =
  reactor :: "('i, 'u) LibeventReactor option"
  objects :: "int \<rightharpoonup> addr"
  notifier :: PipeObject
  tasks :: "('i, 'u) task list"
  running :: bool

text \<open>
  The process as one event loop sees it: the two static generators, the loop, the
  connections on the heap, the addresses of those to which the user's code keeps a shared
  pointer (\<open>held\<close>), the shared states of the futures handed out, the user's state,
  and what was delivered and logged so far. A connection lives as long as the loop's
  registry or the user holds a shared pointer to it.
\<close>

record ('i, 'u) world =
  obj_id_generator :: int
  timerid_generator :: 'i
  loop :: "('i, 'u) EventLoop"
  heap :: "addr \<rightharpoonup> ('i, 'u) TcpObject"
  held :: "addr set"
  futures :: "nat \<rightharpoonup> value"
  next_future :: nat
  user :: 'u
  delivered :: "delivery list"
  logged :: "log_line list"

definition log_warn :: "string \<Rightarrow> ('t::len word, 'u) world \<Rightarrow> ('t word, 'u) world" where
  "log_warn msg w = w\<lparr>logged := logged w @ [WARN msg]\<rparr>"

definition log_error :: "string \<Rightarrow> ('t::len word, 'u) world \<Rightarrow> ('t word, 'u) world" where
  "log_error msg w = w\<lparr>logged := logged w @ [ERROR msg]\<rparr>"

definition deliver :: "delivery \<Rightarrow> ('t::len word, 'u) world \<Rightarrow> ('t word, 'u) world" where
  "deliver d w = w\<lparr>delivered := delivered w @ [d]\<rparr>"

section \<open>The reactor\<close>

text \<open>
  \<^verbatim>\<open>LibeventReactor::Register\<close>. The object is \<open>None\<close> for a null pointer.
\<close>

definition reactor_Register ::
  "'a EventObject_scheme option \<Rightarrow> int \<Rightarrow> ('t::len word, 'u) LibeventReactor
    \<Rightarrow> failure + (bool \<times> ('t word, 'u) LibeventReactor)" where
  "reactor_Register evobj events r =
     (case evobj of
        None \<Rightarrow> Inr (False, r)
      | Some ob \<Rightarrow>
          if events = 0 then Inr (True, r)
          else if unique_id ob < 0 then Inl AssertFailed
          else if reactor_objects r (unique_id ob) \<noteq> None then Inr (False, r)
          else
            let obj = \<lparr>read_event = None, write_event = None\<rparr>;
                obj = (if and events kEventRead \<noteq> 0 then obj\<lparr>read_event := Some (fd ob)\<rparr> else obj);
                obj = (if and events kEventWrite \<noteq> 0 then obj\<lparr>write_event := Some (fd ob)\<rparr> else obj)
            in Inr (True, r\<lparr>reactor_objects := (reactor_objects r)(unique_id ob \<mapsto> obj)\<rparr>))"

text \<open>\<^verbatim>\<open>LibeventReactor::Unregister\<close>.\<close>

definition reactor_Unregister ::
  "'a EventObject_scheme option \<Rightarrow> ('t::len word, 'u) LibeventReactor \<Rightarrow> ('t word, 'u) LibeventReactor" where
  "reactor_Unregister evobj r =
     (case evobj of
        None \<Rightarrow> r
      | Some ob \<Rightarrow>
          if reactor_objects r (unique_id ob) = None then r
          else r\<lparr>reactor_objects := (reactor_objects r)(unique_id ob := None)\<rparr>)"

text \<open>\<^verbatim>\<open>LibeventReactor::Modify\<close>.\<close>

definition reactor_Modify ::
  "'a EventObject_scheme option \<Rightarrow> int \<Rightarrow> ('t::len word, 'u) LibeventReactor
    \<Rightarrow> bool \<times> ('t word, 'u) LibeventReactor" where
  "reactor_Modify evobj events r =
     (case evobj of
        None \<Rightarrow> (False, r)
      | Some ob \<Rightarrow>
          (case reactor_objects r (unique_id ob) of
             None \<Rightarrow> (False, r)
           | Some obj \<Rightarrow>
               let obj = (if and events kEventRead \<noteq> 0
                          then (if read_event obj = None then obj\<lparr>read_event := Some (fd ob)\<rparr> else obj)
                          else obj\<lparr>read_event := None\<rparr>);
                   obj = (if and events kEventWrite \<noteq> 0
                          then (if write_event obj = None then obj\<lparr>write_event := Some (fd ob)\<rparr> else obj)
                          else obj\<lparr>write_event := None\<rparr>)
               in (True, r\<lparr>reactor_objects := (reactor_objects r)(unique_id ob \<mapsto> obj)\<rparr>)))"

text \<open>
  The constructors of \<^verbatim>\<open>LibeventReactor\<close>, \<^verbatim>\<open>PipeObject\<close> and \<^verbatim>\<open>EventLoop\<close>, and
  the process at its start, with both static generators at zero.
\<close>

definition new_LibeventReactor :: "('t::len word, 'u) LibeventReactor" where
  "new_LibeventReactor = \<lparr>reactor_objects = Map.empty, timers = Map.empty\<rparr>"

definition new_PipeObject :: "int \<Rightarrow> PipeObject" where
  "new_PipeObject read_fd = \<lparr>unique_id = - 1, fd = read_fd, pipe_bytes = 0\<rparr>"

definition new_EventLoop :: "int \<Rightarrow> ('t::len word, 'u) EventLoop" where
  "new_EventLoop read_fd =
     \<lparr>reactor = Some new_LibeventReactor, objects = Map.empty, notifier = new_PipeObject read_fd,
      tasks = [], running = True\<rparr>"

definition start_world :: "int \<Rightarrow> 'u \<Rightarrow> ('t::len word, 'u) world" where
  "start_world read_fd u =
     \<lparr>obj_id_generator = 0, timerid_generator = 0, loop = new_EventLoop read_fd, heap = Map.empty,
      held = {}, futures = Map.empty, next_future = 0, user = u, delivered = [], logged = []\<rparr>"

section \<open>The event loop: registry\<close>

text \<open>
  The id allocation loop of \<^verbatim>\<open>EventLoop::Register\<close>:
  \<^verbatim>\<open>do { id = gen.fetch_add(1) + 1; if (id < 0) gen.store(0); }
  while (id < 0 || objects_.count(id) != 0);\<close>
  It returns the id and the generator's value afterwards, and does not return when
  every id it can reach is in use.
\<close>

partial_function (option) alloc_unique_id :: "int \<Rightarrow> (int \<rightharpoonup> addr) \<Rightarrow> (int \<times> int) option" where
  "alloc_unique_id gen objs =
     (if int32 (gen + 1) < 0 then alloc_unique_id 0 objs
      else if objs (int32 (gen + 1)) \<noteq> None then alloc_unique_id (int32 (gen + 1)) objs
      else Some (int32 (gen + 1), int32 (gen + 1)))"

declare alloc_unique_id.simps [code]

text \<open>\<^verbatim>\<open>std::unordered_map::insert\<close> keeps an entry that is already there.\<close>

definition map_insert :: "'k \<Rightarrow> 'v \<Rightarrow> ('k \<rightharpoonup> 'v) \<Rightarrow> ('k \<rightharpoonup> 'v)" where
  "map_insert k v m = (if m k = None then m(k \<mapsto> v) else m)"

text \<open>
  \<^verbatim>\<open>EventLoop::Register\<close>. \<open>p\<close> is the shared pointer (\<open>None\<close> when null) and
  \<open>ob\<close> the object it points to, returned with its new id.
\<close>

definition Register ::
  "bool \<Rightarrow> addr option \<Rightarrow> 'a EventObject_scheme \<Rightarrow> int \<Rightarrow> ('t::len word, 'u) world
    \<Rightarrow> (failure + (bool \<times> 'a EventObject_scheme \<times> ('t word, 'u) world)) option" where
  "Register in_loop p ob events w =
     (if p = None then Some (Inr (False, ob, w))
      else if \<not> in_loop then Some (Inl AssertFailed)
      else if unique_id ob \<noteq> - 1 then Some (Inl AssertFailed)
      else
        (case reactor (loop w) of
           None \<Rightarrow> Some (Inr (False, ob, w))
         | Some r \<Rightarrow>
             (case alloc_unique_id (obj_id_generator w) (objects (loop w)) of
                None \<Rightarrow> None
              | Some (uid, gen) \<Rightarrow>
                  (case reactor_Register (Some (ob\<lparr>unique_id := uid\<rparr>)) events r of
                     Inl e \<Rightarrow> Some (Inl e)
                   | Inr (ok, r') \<Rightarrow>
                       if ok
                       then Some (Inr (True, ob\<lparr>unique_id := uid\<rparr>,
                              w\<lparr>obj_id_generator := gen,
                                loop := (loop w)\<lparr>reactor := Some r',
                                  objects := map_insert uid (the p) (objects (loop w))\<rparr>\<rparr>))
                       else Some (Inr (False, ob\<lparr>unique_id := uid\<rparr>,
                              w\<lparr>obj_id_generator := gen,
                                loop := (loop w)\<lparr>reactor := Some r'\<rparr>\<rparr>))))))"

text \<open>Every id under which the loop's registry holds an object is at least zero.\<close>

definition registry_ids_ok :: "('t::len word, 'u) world \<Rightarrow> bool" where
  "registry_ids_ok w = (\<forall>uid. objects (loop w) uid \<noteq> None \<longrightarrow> 0 \<le> uid)"

text \<open>\<^verbatim>\<open>EventLoop::Modify\<close>.\<close>

definition Modify ::
  "bool \<Rightarrow> addr option \<Rightarrow> 'a EventObject_scheme \<Rightarrow> int \<Rightarrow> ('t::len word, 'u) world
    \<Rightarrow> failure + (bool \<times> ('t word, 'u) world)" where
  "Modify in_loop p ob events w =
     (if p = None then Inr (False, w)
      else if \<not> in_loop then Inl AssertFailed
      else if unique_id ob < 0 then Inl AssertFailed
      else if objects (loop w) (unique_id ob) = None then Inl AssertFailed
      else
        (case reactor (loop w) of
           None \<Rightarrow> Inr (False, w)
         | Some r \<Rightarrow>
             Inr (fst (reactor_Modify (Some ob) events r),
                  w\<lparr>loop := (loop w)\<lparr>reactor := Some (snd (reactor_Modify (Some ob) events r))\<rparr>\<rparr>)))"

text \<open>\<^verbatim>\<open>EventLoop::Unregister\<close>.\<close>

definition Unregister ::
  "bool \<Rightarrow> addr option \<Rightarrow> 'a EventObject_scheme \<Rightarrow> ('t::len word, 'u) world
    \<Rightarrow> failure + ('t word, 'u) world" where
  "Unregister in_loop p ob w =
     (if p = None then Inr w
      else if \<not> in_loop then Inl AssertFailed
      else if unique_id ob < 0 then Inl AssertFailed
      else if objects (loop w) (unique_id ob) = None then Inl AssertFailed
      else
        (case reactor (loop w) of
           None \<Rightarrow> Inr w
         | Some r \<Rightarrow>
             Inr (w\<lparr>loop := (loop w)\<lparr>reactor := Some (reactor_Unregister (Some ob) r),
                      objects := (objects (loop w))(unique_id ob := None)\<rparr>\<rparr>)))"

section \<open>Timers in the reactor\<close>

text \<open>
  \<^verbatim>\<open>LibeventReactor::Schedule\<close>: the timer's event is created persistent when it
  repeats and added with the timeout \<open>period_ms / 1000\<close> seconds and
  \<open>1000 * (period_ms % 1000)\<close> microseconds. \<^verbatim>\<open>event_add\<close> is taken to succeed.
\<close>

definition Schedule ::
  "'t::len word \<Rightarrow> int \<Rightarrow> 'u callback \<Rightarrow> bool \<Rightarrow> ('t word, 'u) LibeventReactor
    \<Rightarrow> ('t word, 'u) LibeventReactor" where
  "Schedule tid period_ms f rep r =
     r\<lparr>timers := (timers r)(tid \<mapsto>
         \<lparr>timer_id = tid, repeat = rep, callback = f, ev_persist = rep,
          tv_sec = c_div period_ms 1000, tv_usec = 1000 * c_mod period_ms 1000\<rparr>)\<rparr>"

definition reactor_ScheduleRepeatedly ::
  "'t::len word \<Rightarrow> int \<Rightarrow> 'u callback \<Rightarrow> ('t word, 'u) LibeventReactor
    \<Rightarrow> ('t word, 'u) LibeventReactor" where
  "reactor_ScheduleRepeatedly tid period_ms f r = Schedule tid period_ms f True r"

definition reactor_ScheduleLater ::
  "'t::len word \<Rightarrow> int \<Rightarrow> 'u callback \<Rightarrow> ('t word, 'u) LibeventReactor
    \<Rightarrow> ('t word, 'u) LibeventReactor" where
  "reactor_ScheduleLater tid delay_ms f r = Schedule tid delay_ms f False r"

text \<open>\<^verbatim>\<open>LibeventReactor::Cancel\<close>.\<close>

definition reactor_Cancel ::
  "'t::len word \<Rightarrow> ('t word, 'u) LibeventReactor \<Rightarrow> bool \<times> ('t word, 'u) LibeventReactor" where
  "reactor_Cancel tid r =
     (if timers r tid = None then (False, r)
      else (True, r\<lparr>timers := (timers r)(tid := None)\<rparr>))"

text \<open>The delay, in milliseconds, a timer was armed with.\<close>

definition armed_ms :: "('t::len word, 'u) Timer \<Rightarrow> int" where
  "armed_ms t = 1000 * tv_sec t + c_div (tv_usec t) 1000"

section \<open>The TCP connection: state transitions\<close>

text \<open>
  In the methods of \<^verbatim>\<open>TcpObject\<close>, \<open>p\<close> is the address of the object
  (\<^verbatim>\<open>this\<close>, and what \<^verbatim>\<open>shared_from_this()\<close> points to), \<open>c\<close> the object, and
  \<open>in_loop\<close> the value of \<^verbatim>\<open>loop_->InThisLoop()\<close> in the calling thread.
\<close>

text \<open>\<^verbatim>\<open>TcpObject::HandleConnect\<close>.\<close>

definition HandleConnect ::
  "bool \<Rightarrow> addr \<Rightarrow> ('t::len word, 'u) TcpObject \<Rightarrow> ('t word, 'u) world
    \<Rightarrow> failure + (('t word, 'u) TcpObject \<times> ('t word, 'u) world)" where
  "HandleConnect in_loop p c w =
     (if \<not> in_loop then Inl AssertFailed
      else if \<not> (state c = kNone \<or> state c = kConnecting) then Inl AssertFailed
      else
        (case bev c of
           None \<Rightarrow> Inl NullDeref
         | Some b \<Rightarrow>
             Inr (c\<lparr>state := kConnected,
                    bev := Some (b\<lparr>readcb := True, eventcb := True, read_enabled := True\<rparr>)\<rparr>,
                  if on_new_conn c then deliver (OnNewConn p) w else w)))"

text \<open>\<^verbatim>\<open>TcpObject::HandleConnectFailed\<close>.\<close>

definition HandleConnectFailed ::
  "bool \<Rightarrow> addr \<Rightarrow> ('t::len word, 'u) TcpObject \<Rightarrow> ('t word, 'u) world
    \<Rightarrow> failure + (('t word, 'u) TcpObject \<times> ('t word, 'u) world)" where
  "HandleConnectFailed in_loop p c w =
     (if \<not> in_loop then Inl AssertFailed
      else if state c \<noteq> kConnecting then Inl AssertFailed
      else
        (case Unregister in_loop (Some p) (c\<lparr>state := kFailed\<rparr>)
                (if on_fail c
                 then deliver (OnConnectFail (peer_ip c) (peer_port c)) (log_error ''HandleConnectFailed'' w)
                 else log_error ''HandleConnectFailed'' w) of
           Inl e \<Rightarrow> Inl e
         | Inr w' \<Rightarrow> Inr (c\<lparr>state := kFailed\<rparr>, w')))"

text \<open>\<^verbatim>\<open>TcpObject::HandleDisconnect\<close>.\<close>

definition HandleDisconnect ::
  "bool \<Rightarrow> addr \<Rightarrow> ('t::len word, 'u) TcpObject \<Rightarrow> ('t word, 'u) world
    \<Rightarrow> failure + (('t word, 'u) TcpObject \<times> ('t word, 'u) world)" where
  "HandleDisconnect in_loop p c w =
     (if \<not> in_loop then Inl AssertFailed
      else if state c \<noteq> kConnected then Inl AssertFailed
      else
        (case Unregister in_loop (Some p) (c\<lparr>state := kDisconnected\<rparr>)
                (if on_disconnect c then deliver (OnDisconnect p) w else w) of
           Inl e \<Rightarrow> Inl e
         | Inr w' \<Rightarrow> Inr (c\<lparr>state := kDisconnected\<rparr>, w')))"

section \<open>The event loop: tasks and timers\<close>

text \<open>
  The branch of \<^verbatim>\<open>EventLoop::Cancel\<close> that is taken on the loop's thread: the reactor
  cancels the timer, and a promise is fulfilled with the outcome. It returns the future.
\<close>

definition Cancel_InThisLoop ::
  "'t::len word \<Rightarrow> ('t word, 'u) world \<Rightarrow> nat \<times> ('t word, 'u) world" where
  "Cancel_InThisLoop tid w =
     (case reactor (loop w) of
        None \<Rightarrow>
          (next_future w,
           w\<lparr>next_future := next_future w + 1,
             futures := (futures w)(next_future w \<mapsto> VBool False)\<rparr>)
      | Some r \<Rightarrow>
          (next_future w,
           w\<lparr>next_future := next_future w + 1,
             futures := (futures w)(next_future w \<mapsto> VBool (fst (reactor_Cancel tid r))),
             loop := (loop w)\<lparr>reactor := Some (snd (reactor_Cancel tid r))\<rparr>\<rparr>))"

text \<open>
  \<^verbatim>\<open>TcpObject::~TcpObject\<close>, run on the loop's thread: the idle timer is cancelled,
  the \<^verbatim>\<open>bufferevent\<close> is freed with the object, and the object leaves the heap.
\<close>

definition delete_TcpObject ::
  "addr \<Rightarrow> ('t::len word, 'u) TcpObject \<Rightarrow> ('t word, 'u) world \<Rightarrow> ('t word, 'u) world" where
  "delete_TcpObject p c w =
     (let w1 = (if idle_timer c \<noteq> - 1 then snd (Cancel_InThisLoop (idle_timer c) w) else w)
      in w1\<lparr>heap := (heap w1)(p := None)\<rparr>)"

text \<open>
  The end of a closure that ran on the loop's thread with a locked shared pointer to the
  connection \<open>c\<close> at \<open>p\<close>: the pointer goes out of scope. The connection stays
  when the registry or the user still holds it, and is destroyed when that pointer was
  the last one.
\<close>

definition release ::
  "addr \<Rightarrow> ('t::len word, 'u) TcpObject \<Rightarrow> ('t word, 'u) world \<Rightarrow> ('t word, 'u) world" where
  "release p c w =
     (if objects (loop w) (unique_id c) = Some p \<or> p \<in> held w
      then w\<lparr>heap := (heap w)(p \<mapsto> c)\<rparr>
      else delete_TcpObject p c w)"

text \<open>
  Running what \<^verbatim>\<open>Execute\<close> packaged, on the loop's thread: the user's closure, or
  the body of one of the lambdas of \<^verbatim>\<open>ScheduleLater\<close>, \<^verbatim>\<open>ScheduleRepeatedly\<close>,
  \<^verbatim>\<open>Cancel\<close> and \<^verbatim>\<open>ActiveClose\<close>. The weak pointer of \<^verbatim>\<open>ActiveClose\<close> locks when
  the connection is still on the heap.
\<close>

definition run_work ::
  "('t::len word, 'u) work \<Rightarrow> ('t word, 'u) world \<Rightarrow> failure + (value \<times> ('t word, 'u) world)" where
  "run_work wk w =
     (case wk of
        UserFn n f \<Rightarrow> Inr (fst (f (user w)), deliver (Ran n) (w\<lparr>user := snd (f (user w))\<rparr>))
      | ArmTimer tid ms cb rep \<Rightarrow>
          (case reactor (loop w) of
             None \<Rightarrow> Inl NullDeref
           | Some r \<Rightarrow>
               Inr (VVoid,
                    w\<lparr>loop := (loop w)\<lparr>reactor :=
                         Some (if rep then reactor_ScheduleRepeatedly tid ms cb r
                               else reactor_ScheduleLater tid ms cb r)\<rparr>\<rparr>))
      | CancelTimer tid \<Rightarrow>
          (case reactor (loop w) of
             None \<Rightarrow> Inr (VBool False, w)
           | Some r \<Rightarrow>
               Inr (VBool (fst (reactor_Cancel tid r)),
                    w\<lparr>loop := (loop w)\<lparr>reactor := Some (snd (reactor_Cancel tid r))\<rparr>\<rparr>))
      | Destroy p \<Rightarrow>
          (case heap w p of
             None \<Rightarrow> Inr (VVoid, w)
           | Some c \<Rightarrow>
               if state c = kConnected
               then (case HandleDisconnect True p c w of
                       Inl e \<Rightarrow> Inl e
                     | Inr (c', w') \<Rightarrow> Inr (VVoid, release p c' w'))
               else Inr (VVoid, w)))"

text \<open>
  \<^verbatim>\<open>PipeObject::Notify\<close>: one byte is written to the pipe, whose write end does not
  block, so the byte is dropped when the pipe is full. A pipe holds 65536 bytes on Linux
  (\<^verbatim>\<open>pipe(7)\<close>). No caller looks at the result.
\<close>

definition pipe_capacity :: nat where
  "pipe_capacity = 65536"

definition Notify :: "PipeObject \<Rightarrow> PipeObject" where
  "Notify n = (if pipe_bytes n < pipe_capacity then n\<lparr>pipe_bytes := pipe_bytes n + 1\<rparr> else n)"

text \<open>
  \<^verbatim>\<open>EventLoop::Execute\<close>. It returns the future, named by the number of its shared
  state: the future is fulfilled when \<open>futures\<close> holds a value for it. The body of the
  other-thread branch runs under \<^verbatim>\<open>task_mutex_\<close>, so it is one step.
\<close>

definition Execute ::
  "bool \<Rightarrow> ('t::len word, 'u) work \<Rightarrow> ('t word, 'u) world \<Rightarrow> failure + (nat \<times> ('t word, 'u) world)" where
  "Execute in_loop wk w =
     (if in_loop
      then (case run_work wk (w\<lparr>next_future := next_future w + 1\<rparr>) of
              Inl e \<Rightarrow> Inl e
            | Inr (v, w') \<Rightarrow> Inr (next_future w, w'\<lparr>futures := (futures w')(next_future w \<mapsto> v)\<rparr>))
      else Inr (next_future w,
                w\<lparr>next_future := next_future w + 1,
                  loop := (loop w)\<lparr>tasks := tasks (loop w) @ [Task (next_future w) wk],
                                    notifier := Notify (notifier (loop w))\<rparr>\<rparr>))"

text \<open>
  \<^verbatim>\<open>EventLoop::ScheduleRepeatedly(int period_ms, F&&, Args&&...)\<close> and
  \<^verbatim>\<open>EventLoop::ScheduleLater(int delay_ms, F&&, Args&&...)\<close>.
\<close>

definition ScheduleRepeatedly ::
  "bool \<Rightarrow> int \<Rightarrow> 'u callback \<Rightarrow> ('t::len word, 'u) world \<Rightarrow> failure + ('t word \<times> ('t word, 'u) world)" where
  "ScheduleRepeatedly in_loop period_ms cb w =
     (if in_loop
      then (case reactor (loop w) of
              None \<Rightarrow> Inl NullDeref
            | Some r \<Rightarrow>
                Inr (timerid_generator w + 1,
                     w\<lparr>timerid_generator := timerid_generator w + 1,
                       loop := (loop w)\<lparr>reactor :=
                         Some (reactor_ScheduleRepeatedly (timerid_generator w + 1) period_ms cb r)\<rparr>\<rparr>))
      else (case Execute False (ArmTimer (timerid_generator w + 1) period_ms cb True)
                   (w\<lparr>timerid_generator := timerid_generator w + 1\<rparr>) of
              Inl e \<Rightarrow> Inl e
            | Inr (fut, w') \<Rightarrow> Inr (timerid_generator w + 1, w')))"

definition ScheduleLater ::
  "bool \<Rightarrow> int \<Rightarrow> 'u callback \<Rightarrow> ('t::len word, 'u) world \<Rightarrow> failure + ('t word \<times> ('t word, 'u) world)" where
  "ScheduleLater in_loop delay_ms cb w =
     (if in_loop
      then (case reactor (loop w) of
              None \<Rightarrow> Inl NullDeref
            | Some r \<Rightarrow>
                Inr (timerid_generator w + 1,
                     w\<lparr>timerid_generator := timerid_generator w + 1,
                       loop := (loop w)\<lparr>reactor :=
                         Some (reactor_ScheduleLater (timerid_generator w + 1) delay_ms cb r)\<rparr>\<rparr>))
      else (case Execute False (ArmTimer (timerid_generator w + 1) delay_ms cb False)
                   (w\<lparr>timerid_generator := timerid_generator w + 1\<rparr>) of
              Inl e \<Rightarrow> Inl e
            | Inr (fut, w') \<Rightarrow> Inr (timerid_generator w + 1, w')))"

text \<open>
  The overloads that take a \<^verbatim>\<open>std::chrono\<close> duration. A duration is its count of ticks
  and the tick's length \<open>num / den\<close> seconds; \<^verbatim>\<open>duration_cast<milliseconds>\<close>
  truncates towards zero into a 64-bit count, and the \<^verbatim>\<open>static_cast<int>\<close> keeps the low
  32 bits.
\<close>

record Duration =
  count :: int
  num :: nat
  den :: nat

definition int64 :: "int \<Rightarrow> int" where
  "int64 x = signed_take_bit 63 x"

definition duration_cast_milliseconds :: "Duration \<Rightarrow> int" where
  "duration_cast_milliseconds d = int64 (c_div (count d * int (num d) * 1000) (int (den d)))"

definition clamp_ms :: "Duration \<Rightarrow> int" where
  "clamp_ms d = int32 (max 1 (duration_cast_milliseconds d))"

definition ScheduleRepeatedly_Duration ::
  "bool \<Rightarrow> Duration \<Rightarrow> 'u callback \<Rightarrow> ('t::len word, 'u) world \<Rightarrow> failure + ('t word \<times> ('t word, 'u) world)" where
  "ScheduleRepeatedly_Duration in_loop period cb w = ScheduleRepeatedly in_loop (clamp_ms period) cb w"

definition ScheduleLater_Duration ::
  "bool \<Rightarrow> Duration \<Rightarrow> 'u callback \<Rightarrow> ('t::len word, 'u) world \<Rightarrow> failure + ('t word \<times> ('t word, 'u) world)" where
  "ScheduleLater_Duration in_loop delay cb w = ScheduleLater in_loop (clamp_ms delay) cb w"

text \<open>
  \<^verbatim>\<open>EventLoop::Cancel\<close>: it returns the future of the outcome. On the loop's thread
  it cancels at once, as above; from another thread it posts the cancellation.
\<close>

definition Cancel ::
  "bool \<Rightarrow> 't::len word \<Rightarrow> ('t word, 'u) world \<Rightarrow> failure + (nat \<times> ('t word, 'u) world)" where
  "Cancel in_loop tid w =
     (if in_loop then Inr (Cancel_InThisLoop tid w) else Execute False (CancelTimer tid) w)"

text \<open>
  A sequence of calls of the two scheduling functions, each from the loop's thread or
  from another one (\<open>in_loop\<close>), repeating or not, and the timer ids they return.
\<close>

fun schedule_run ::
  "(bool \<times> bool \<times> int \<times> 'u callback) list \<Rightarrow> ('t::len word, 'u) world
    \<Rightarrow> failure + ('t word list \<times> ('t word, 'u) world)" where
  "schedule_run [] w = Inr ([], w)"
| "schedule_run ((in_loop, rep, ms, cb) # rs) w =
     (case (if rep then ScheduleRepeatedly in_loop ms cb w else ScheduleLater in_loop ms cb w) of
        Inl e \<Rightarrow> Inl e
      | Inr (tid, w') \<Rightarrow>
          (case schedule_run rs w' of
             Inl e \<Rightarrow> Inl e
           | Inr (tids, w'') \<Rightarrow> Inr (tid # tids, w'')))"

section \<open>The TCP connection: closing, idle timeout, receiving\<close>

text \<open>
  \<^verbatim>\<open>TcpObject::ActiveClose\<close>. On the loop's thread the \<^verbatim>\<open>destroy\<close> lambda runs at
  once; from another thread it is posted, and \<open>sync\<close> only decides whether the caller
  then waits on the future.
\<close>

definition ActiveClose ::
  "bool \<Rightarrow> bool \<Rightarrow> addr \<Rightarrow> ('t::len word, 'u) TcpObject \<Rightarrow> ('t word, 'u) world
    \<Rightarrow> failure + (('t word, 'u) TcpObject \<times> ('t word, 'u) world)" where
  "ActiveClose in_loop sync p c w =
     (if in_loop
      then (if state c = kConnected then HandleDisconnect True p c w else Inr (c, w))
      else (case Execute False (Destroy p) w of
              Inl e \<Rightarrow> Inl e
            | Inr (fut, w') \<Rightarrow> Inr (c, w')))"

text \<open>
  \<^verbatim>\<open>TcpObject::CheckIdleTimeout\<close>. Time points of \<^verbatim>\<open>std::chrono::steady_clock\<close>
  are 64-bit counts of nanoseconds (as in libstdc++ and libc++), and \<open>now\<close> is the
  clock's reading. \<^verbatim>\<open>duration_cast<milliseconds>\<close> truncates the difference towards
  zero, and the \<^verbatim>\<open>static_cast<int>\<close> keeps the low 32 bits of the count.
\<close>

definition CheckIdleTimeout ::
  "int \<Rightarrow> ('t::len word, 'u) TcpObject \<Rightarrow> ('t word, 'u) world \<Rightarrow> bool \<times> ('t word, 'u) world" where
  "CheckIdleTimeout now c w =
     (if int32 (c_div (int64 (now - last_active c)) 1000000) > idle_timeout_ms c
      then (True, log_warn ''TcpObject::Timeout'' w)
      else (False, w))"

text \<open>\<^verbatim>\<open>TcpObject::SetIdleTimeout\<close>.\<close>

definition SetIdleTimeout ::
  "bool \<Rightarrow> addr \<Rightarrow> int \<Rightarrow> ('t::len word, 'u) TcpObject \<Rightarrow> ('t word, 'u) world
    \<Rightarrow> failure + (('t word, 'u) TcpObject \<times> ('t word, 'u) world)" where
  "SetIdleTimeout in_loop p timeout_ms c w =
     (if timeout_ms \<le> 0 then Inr (c, w)
      else
        (case (if idle_timer c \<noteq> - 1 then Cancel in_loop (idle_timer c) w else Inr (0, w)) of
           Inl e \<Rightarrow> Inl e
         | Inr (fut, w1) \<Rightarrow>
             (case ScheduleRepeatedly in_loop 100 (IdleCheck p) w1 of
                Inl e \<Rightarrow> Inl e
              | Inr (tid, w2) \<Rightarrow> Inr (c\<lparr>idle_timeout_ms := timeout_ms, idle_timer := tid\<rparr>, w2))))"

text \<open>
  The consume loop of \<^verbatim>\<open>TcpObject::OnRecvData\<close>:
  \<^verbatim>\<open>while (!error && total_consumed < len) { ... }\<close>.
  It returns \<open>total_consumed\<close> and \<open>error\<close>. The callback is shown the bytes from
  \<open>start + total_consumed\<close> on. An overflow of \<^verbatim>\<open>total_consumed += consumed\<close> is
  undefined in C++; the model stops there with \<open>SignedOverflow\<close>.
\<close>

function consume ::
  "('u \<Rightarrow> byte list \<Rightarrow> int \<times> 'u) option \<Rightarrow> addr \<Rightarrow> byte list \<Rightarrow> int \<Rightarrow> int
    \<Rightarrow> ('t::len word, 'u) world \<Rightarrow> failure + (int \<times> bool \<times> ('t word, 'u) world)" where
  "consume f p start len total_consumed w =
     (if total_consumed < len
      then (case f of
              None \<Rightarrow> Inl BadFunctionCall
            | Some g \<Rightarrow>
                let view = take (nat (len - total_consumed)) (drop (nat total_consumed) start);
                    consumed = fst (g (user w) view);
                    w' = deliver (OnMessage p view consumed) (w\<lparr>user := snd (g (user w) view)\<rparr>)
                in if consumed > 0
                   then (if total_consumed + consumed > INT_MAX then Inl SignedOverflow
                         else consume f p start len (total_consumed + consumed) w')
                   else Inr (total_consumed, consumed < 0, w'))
      else Inr (total_consumed, False, w))"
  by pat_completeness auto
termination
  by (relation "measure (\<lambda>(f, p, start, len, total_consumed, w). nat (len - total_consumed))") auto

declare consume.simps [simp del]

text \<open>
  Reading a trace of deliveries: the values the message callback returned, in order;
  whether every call was made while the running total was below the length and was shown
  the bytes from the running total on, the total advancing by what the call before
  returned; and whether the values are what the callback \<open>f\<close> answers when it is run
  on these calls one after the other from the user's state \<open>u\<close>, with the user's
  state it leaves.
\<close>

fun consumed_values :: "delivery list \<Rightarrow> int list" where
  "consumed_values [] = []"
| "consumed_values (OnMessage q v n # ds) = n # consumed_values ds"
| "consumed_values (d # ds) = consumed_values ds"

fun advancing :: "addr \<Rightarrow> byte list \<Rightarrow> int \<Rightarrow> int \<Rightarrow> delivery list \<Rightarrow> bool" where
  "advancing p start len total_consumed [] = True"
| "advancing p start len total_consumed (OnMessage q v n # ds) =
     (q = p \<and> total_consumed < len \<and>
      v = take (nat (len - total_consumed)) (drop (nat total_consumed) start) \<and>
      advancing p start len (total_consumed + n) ds)"
| "advancing p start len total_consumed (d # ds) = False"

fun answers :: "('u \<Rightarrow> byte list \<Rightarrow> int \<times> 'u) \<Rightarrow> 'u \<Rightarrow> delivery list \<Rightarrow> 'u option" where
  "answers f u [] = Some u"
| "answers f u (OnMessage q v n # ds) =
     (if n = fst (f u v) then answers f (snd (f u v)) ds else None)"
| "answers f u (d # ds) = None"

text \<open>
  \<^verbatim>\<open>TcpObject::OnRecvData\<close>, the read callback of the \<^verbatim>\<open>bufferevent\<close>. After
  \<^verbatim>\<open>evbuffer_pullup\<close> the buffer is one extent, or none when it is empty.
\<close>

definition OnRecvData ::
  "bool \<Rightarrow> int \<Rightarrow> addr \<Rightarrow> ('t::len word, 'u) TcpObject \<Rightarrow> ('t word, 'u) world
    \<Rightarrow> failure + (('t word, 'u) TcpObject \<times> ('t word, 'u) world)" where
  "OnRecvData in_loop now p c w =
     (if \<not> in_loop then Inl AssertFailed
      else
        (case bev c of
           None \<Rightarrow> Inl AssertFailed
         | Some b \<Rightarrow>
             let c1 = (if idle_timer c \<noteq> - 1 then c\<lparr>last_active := now\<rparr> else c)
             in if input_buffer b = [] then Inr (c1, w)
                else
                  (case consume (on_message c1) p (input_buffer b)
                          (int32 (int (length (input_buffer b)))) 0 w of
                     Inl e \<Rightarrow> Inl e
                   | Inr (total_consumed, error, w') \<Rightarrow>
                       let c2 = (if total_consumed > 0
                                 then c1\<lparr>bev := Some (b\<lparr>input_buffer :=
                                        drop (nat total_consumed) (input_buffer b)\<rparr>)\<rparr>
                                 else c1)
                       in if error then HandleDisconnect in_loop p c2 w' else Inr (c2, w'))))"

text \<open>The event bits of libevent's \<^verbatim>\<open>bufferevent.h\<close>.\<close>

definition BEV_EVENT_EOF :: int where
  "BEV_EVENT_EOF = 16"

definition BEV_EVENT_CONNECTED :: int where
  "BEV_EVENT_CONNECTED = 128"

text \<open>\<^verbatim>\<open>TcpObject::OnEvent\<close>, the event callback of the \<^verbatim>\<open>bufferevent\<close>.\<close>

definition OnEvent ::
  "bool \<Rightarrow> addr \<Rightarrow> int \<Rightarrow> ('t::len word, 'u) TcpObject \<Rightarrow> ('t word, 'u) world
    \<Rightarrow> failure + (('t word, 'u) TcpObject \<times> ('t word, 'u) world)" where
  "OnEvent in_loop p events c w =
     (if \<not> in_loop then Inl AssertFailed
      else
        (case state c of
           kConnecting \<Rightarrow>
             if and events BEV_EVENT_CONNECTED \<noteq> 0 then HandleConnect in_loop p c w
             else HandleConnectFailed in_loop p c w
         | kConnected \<Rightarrow>
             if and events BEV_EVENT_EOF \<noteq> 0 then HandleDisconnect in_loop p c w
             else Inr (c, w)
         | _ \<Rightarrow> Inr (c, log_error ''TcpObject::OnEvent wrong state'' w)))"

section \<open>The TCP connection: connecting and accepting\<close>

text \<open>
  \<^verbatim>\<open>TcpObject::Connect\<close>. What libevent and the operating system decide is given:
  \<open>bev_ok\<close> says whether \<^verbatim>\<open>bufferevent_socket_new\<close> returned a
  \<^verbatim>\<open>bufferevent\<close>, \<open>err\<close> is the result of \<^verbatim>\<open>bufferevent_socket_connect\<close> and
  \<open>sock\<close> the descriptor it opened. \<^verbatim>\<open>loop_->GetReactor()->Backend()\<close> dereferences
  the reactor, which is null once \<^verbatim>\<open>Run\<close> has returned.
\<close>

definition new_bufferevent :: bufferevent where
  "new_bufferevent =
     \<lparr>input_buffer = [], output_buffer = [], readcb = False, eventcb = False, read_enabled = False\<rparr>"

definition TcpObject_Connect ::
  "bool \<Rightarrow> addr \<Rightarrow> string \<Rightarrow> int \<Rightarrow> bool \<Rightarrow> int \<Rightarrow> int \<Rightarrow> ('t::len word, 'u) TcpObject
    \<Rightarrow> ('t word, 'u) world
    \<Rightarrow> (failure + (bool \<times> ('t word, 'u) TcpObject \<times> ('t word, 'u) world)) option" where
  "TcpObject_Connect in_loop p ip port bev_ok err sock c w =
     (if \<not> in_loop then Some (Inl AssertFailed)
      else if state c \<noteq> kNone
      then Some (Inr (False, c, log_error ''repeat connect tcp socket'' w))
      else if reactor (loop w) = None then Some (Inl NullDeref)
      else if \<not> bev_ok
      then Some (Inr (False, c, log_error ''can not new bufferevent'' w))
      else if err \<noteq> 0
      then Some (Inr (False, c, log_error ''bufferevent_socket_connect failed'' w))
      else
        (case Register in_loop (Some p) c 0 w of
           None \<Rightarrow> None
         | Some (Inl e) \<Rightarrow> Some (Inl e)
         | Some (Inr (ok, c', w')) \<Rightarrow>
             if \<not> ok
             then Some (Inr (False, c', log_error ''add tcp obj to loop failed'' w'))
             else Some (Inr (True,
                    c'\<lparr>fd := sock, bev := Some (new_bufferevent\<lparr>eventcb := True\<rparr>),
                       peer_ip := ip, peer_port := port, state := kConnecting\<rparr>,
                    w'))))"

text \<open>
  \<^verbatim>\<open>TcpObject::OnAccept\<close>; \<open>bev_ok\<close> is as above, and the source asserts it.
\<close>

definition OnAccept ::
  "bool \<Rightarrow> addr \<Rightarrow> int \<Rightarrow> string \<Rightarrow> int \<Rightarrow> bool \<Rightarrow> ('t::len word, 'u) TcpObject
    \<Rightarrow> ('t word, 'u) world
    \<Rightarrow> failure + (('t word, 'u) TcpObject \<times> ('t word, 'u) world)" where
  "OnAccept in_loop p sock ip port bev_ok c w =
     (if \<not> in_loop then Inl AssertFailed
      else if reactor (loop w) = None then Inl NullDeref
      else if \<not> bev_ok then Inl AssertFailed
      else HandleConnect in_loop p
             (c\<lparr>fd := sock, bev := Some new_bufferevent, peer_ip := ip, peer_port := port\<rparr>) w)"

text \<open>
  The constructor of \<^verbatim>\<open>TcpObject\<close>, with the member initialisers of
  \<^verbatim>\<open>tcp_obj.h\<close>, and \<^verbatim>\<open>EventLoop::Connect\<close>. \<open>p\<close> is the address
  \<^verbatim>\<open>make_shared\<close> returns; \<open>ccb\<close> and \<open>fcb\<close> say whether the two callbacks passed are
  non-empty. The result is the handle returned, \<open>None\<close> when it is null; a connection
  whose handle is reset is destroyed and never reaches the heap, and the handle of one
  that was made is the caller's to keep (it is then in \<open>held\<close>) or to drop.
\<close>

definition new_TcpObject :: "int \<Rightarrow> ('t::len word, 'u) TcpObject" where
  "new_TcpObject now =
     \<lparr>unique_id = - 1, fd = - 1, state = kNone, bev = None, peer_ip = [], peer_port = - 1,
      on_message = None, on_disconnect = False, on_fail = False, on_new_conn = False,
      idle_timer = - 1, idle_timeout_ms = 0, last_active = now\<rparr>"

definition EventLoop_Connect ::
  "bool \<Rightarrow> addr \<Rightarrow> int \<Rightarrow> string \<Rightarrow> int \<Rightarrow> bool \<Rightarrow> bool \<Rightarrow> bool \<Rightarrow> int \<Rightarrow> int
    \<Rightarrow> ('t::len word, 'u) world \<Rightarrow> (failure + (addr option \<times> ('t word, 'u) world)) option" where
  "EventLoop_Connect in_loop p now ip port ccb fcb bev_ok err sock w =
     (case TcpObject_Connect in_loop p ip port bev_ok err sock
             ((new_TcpObject now)\<lparr>on_new_conn := ccb, on_fail := fcb\<rparr>) w of
        None \<Rightarrow> None
      | Some (Inl e) \<Rightarrow> Some (Inl e)
      | Some (Inr (ok, c, w')) \<Rightarrow>
          if \<not> ok then Some (Inr (None, w'))
          else Some (Inr (Some p, w'\<lparr>heap := (heap w')(p \<mapsto> c)\<rparr>)))"

section \<open>The event loop: running\<close>

text \<open>
  Invoking a stored timer callback on the loop's thread. The idle check locks its weak
  reference, which succeeds when the connection is still on the heap, and closes the
  connection when \<^verbatim>\<open>CheckIdleTimeout\<close> says so; the locked pointer goes out of scope
  when the closure ends.
\<close>

definition run_callback ::
  "int \<Rightarrow> 'u callback \<Rightarrow> ('t::len word, 'u) world \<Rightarrow> failure + ('t word, 'u) world" where
  "run_callback now cb w =
     (case cb of
        UserCb n f \<Rightarrow> Inr (deliver (Ran n) (w\<lparr>user := f (user w)\<rparr>))
      | IdleCheck p \<Rightarrow>
          (case heap w p of
             None \<Rightarrow> Inr w
           | Some c \<Rightarrow>
               if fst (CheckIdleTimeout now c w)
               then (case ActiveClose True False p c (snd (CheckIdleTimeout now c w)) of
                       Inl e \<Rightarrow> Inl e
                     | Inr (c', w') \<Rightarrow> Inr (release p c' w'))
               else Inr (snd (CheckIdleTimeout now c w))))"

text \<open>
  \<^verbatim>\<open>LibeventReactor::TimerCallback\<close> for the timer \<open>tid\<close>. libevent fires only the
  events of timers that are still in \<open>timers\<close>: erasing a timer frees its event.
\<close>

definition TimerCallback ::
  "int \<Rightarrow> 't::len word \<Rightarrow> ('t word, 'u) world \<Rightarrow> failure + ('t word, 'u) world" where
  "TimerCallback now tid w =
     (case reactor (loop w) of
        None \<Rightarrow> Inr w
      | Some r \<Rightarrow>
          (case timers r tid of
             None \<Rightarrow> Inr w
           | Some t \<Rightarrow>
               (case run_callback now (callback t) w of
                  Inl e \<Rightarrow> Inl e
                | Inr w' \<Rightarrow>
                    if repeat t then Inr w'
                    else
                      (case reactor (loop w') of
                         None \<Rightarrow> Inl NullDeref
                       | Some r' \<Rightarrow>
                           Inr (w'\<lparr>loop := (loop w')\<lparr>reactor :=
                                  Some (snd (reactor_Cancel (timer_id t) r'))\<rparr>\<rparr>)))))"

text \<open>
  \<^verbatim>\<open>LibeventReactor::Poll\<close>: one pass of \<^verbatim>\<open>event_base_loop\<close>, which dispatches the
  timers that expired (\<open>expired\<close>, in the order libevent picks); \<open>poll_ok\<close> says that
  it did not return \<open>-1\<close>.
\<close>

fun fire :: "int \<Rightarrow> 't::len word list \<Rightarrow> ('t word, 'u) world \<Rightarrow> failure + ('t word, 'u) world" where
  "fire now [] w = Inr w"
| "fire now (tid # tids) w =
     (case TimerCallback now tid w of Inl e \<Rightarrow> Inl e | Inr w' \<Rightarrow> fire now tids w')"

definition Poll ::
  "int \<Rightarrow> 't::len word list \<Rightarrow> bool \<Rightarrow> ('t word, 'u) world \<Rightarrow> failure + (bool \<times> ('t word, 'u) world)" where
  "Poll now expired poll_ok w =
     (case fire now expired w of Inl e \<Rightarrow> Inl e | Inr w' \<Rightarrow> Inr (poll_ok, w'))"

text \<open>
  The body of the \<^verbatim>\<open>while (running_)\<close> loop of \<^verbatim>\<open>EventLoop::Run\<close>: when
  \<^verbatim>\<open>try_lock\<close> succeeds (\<open>locked\<close>) the inbox is swapped out and its tasks run in
  order, each fulfilling its future; then the reactor polls.
\<close>

fun run_tasks :: "('t::len word, 'u) task list \<Rightarrow> ('t word, 'u) world \<Rightarrow> failure + ('t word, 'u) world" where
  "run_tasks [] w = Inr w"
| "run_tasks (Task fut wk # ts) w =
     (case run_work wk w of
        Inl e \<Rightarrow> Inl e
      | Inr (v, w') \<Rightarrow> run_tasks ts (w'\<lparr>futures := (futures w')(fut \<mapsto> v)\<rparr>))"

definition drain :: "bool \<Rightarrow> ('t::len word, 'u) world \<Rightarrow> failure + ('t word, 'u) world" where
  "drain locked w =
     (if locked then run_tasks (tasks (loop w)) (w\<lparr>loop := (loop w)\<lparr>tasks := []\<rparr>\<rparr>) else Inr w)"

definition Run_iteration ::
  "bool \<Rightarrow> int \<Rightarrow> 't::len word list \<Rightarrow> bool \<Rightarrow> ('t word, 'u) world \<Rightarrow> failure + ('t word, 'u) world" where
  "Run_iteration locked now expired poll_ok w =
     (case drain locked w of
        Inl e \<Rightarrow> Inl e
      | Inr w1 \<Rightarrow>
          (case Poll now expired poll_ok w1 of
             Inl e \<Rightarrow> Inl e
           | Inr (ok, w2) \<Rightarrow> Inr (if ok then w2 else log_error ''Reactor poll failed'' w2)))"

section \<open>The TCP connection: sending\<close>

text \<open>
  \<^verbatim>\<open>TcpObject::SendPacket(const void*, size_t)\<close>. The data is \<open>None\<close> for a null
  pointer, and its size is its length. \<open>in_loop\<close> is the value of
  \<^verbatim>\<open>loop->InThisLoop()\<close> in the calling thread. \<^verbatim>\<open>evbuffer_add\<close> is taken to
  succeed.
\<close>

definition SendPacket ::
  "bool \<Rightarrow> byte list option \<Rightarrow> ('t::len word, 'u) TcpObject \<Rightarrow> ('t word, 'u) world
    \<Rightarrow> failure + (bool \<times> ('t word, 'u) TcpObject \<times> ('t word, 'u) world)" where
  "SendPacket in_loop data c w =
     (if state c \<noteq> kConnected
      then Inr (False, c, log_error ''send tcp data in wrong state'' w)
      else if data = None \<or> data = Some [] then Inr (True, c, w)
      else if \<not> in_loop then Inl AssertFailed
      else
        (case bev c of
           None \<Rightarrow> Inl NullDeref
         | Some b \<Rightarrow> Inr (True, c\<lparr>bev := Some (b\<lparr>output_buffer := output_buffer b @ the data\<rparr>)\<rparr>, w)))"

text \<open>
  \<^verbatim>\<open>TcpObject::SendPacket(const evbuffer_iovec*, int)\<close>: the array is \<open>None\<close> for a
  null pointer, and \<^verbatim>\<open>evbuffer_add_iovec\<close> appends its first \<open>nvecs\<close> segments.
\<close>

definition SendPacket_iovec ::
  "bool \<Rightarrow> byte list list option \<Rightarrow> int \<Rightarrow> ('t::len word, 'u) TcpObject \<Rightarrow> ('t word, 'u) world
    \<Rightarrow> failure + (bool \<times> ('t word, 'u) TcpObject \<times> ('t word, 'u) world)" where
  "SendPacket_iovec in_loop iovecs nvecs c w =
     (if state c \<noteq> kConnected
      then Inr (False, c, log_error ''send tcp data in wrong state'' w)
      else if iovecs = None \<or> nvecs \<le> 0 then Inr (True, c, w)
      else if \<not> in_loop then Inl AssertFailed
      else
        (case bev c of
           None \<Rightarrow> Inl NullDeref
         | Some b \<Rightarrow>
             Inr (True,
                  c\<lparr>bev := Some (b\<lparr>output_buffer := output_buffer b @ concat (take (nat nvecs) (the iovecs))\<rparr>)\<rparr>,
                  w)))"

section \<open>The life of a connection\<close>

text \<open>
  What can happen to a connection on its loop's thread while it exists: libevent calls
  its event callback with some event bits, bytes arrive and libevent calls its read
  callback (when that is installed and reading is enabled), somebody calls
  \<^verbatim>\<open>ActiveClose\<close>, or its idle timer fires. A run is a sequence of such steps, and it
  stops at the first failure, as the process does. The run follows the object itself,
  which exists for as long as somebody holds it.
\<close>

datatype conn_event =
    BevEvent int
  | BevRead int "byte list"
  | Close bool
  | IdleFire int

fun conn_step ::
  "conn_event \<Rightarrow> addr \<Rightarrow> ('t::len word, 'u) TcpObject \<Rightarrow> ('t word, 'u) world
    \<Rightarrow> failure + (('t word, 'u) TcpObject \<times> ('t word, 'u) world)" where
  "conn_step (BevEvent events) p c w =
     (case bev c of
        None \<Rightarrow> Inr (c, w)
      | Some b \<Rightarrow> if eventcb b then OnEvent True p events c w else Inr (c, w))"
| "conn_step (BevRead now bytes) p c w =
     (case bev c of
        None \<Rightarrow> Inr (c, w)
      | Some b \<Rightarrow>
          if readcb b \<and> read_enabled b
          then OnRecvData True now p
                 (c\<lparr>bev := Some (b\<lparr>input_buffer := input_buffer b @ bytes\<rparr>)\<rparr>) w
          else Inr (c, w))"
| "conn_step (Close sync) p c w = ActiveClose True sync p c w"
| "conn_step (IdleFire now) p c w =
     (if fst (CheckIdleTimeout now c w)
      then ActiveClose True False p c (snd (CheckIdleTimeout now c w))
      else Inr (c, snd (CheckIdleTimeout now c w)))"

fun conn_run ::
  "conn_event list \<Rightarrow> addr \<Rightarrow> ('t::len word, 'u) TcpObject \<Rightarrow> ('t word, 'u) world
    \<Rightarrow> failure + (('t word, 'u) TcpObject \<times> ('t word, 'u) world)" where
  "conn_run [] p c w = Inr (c, w)"
| "conn_run (e # es) p c w =
     (case conn_step e p c w of Inl x \<Rightarrow> Inl x | Inr (c', w') \<Rightarrow> conn_run es p c' w')"

text \<open>The two callbacks that end a connection, and the two states they end it in.\<close>

fun closing :: "delivery \<Rightarrow> bool" where
  "closing (OnDisconnect p) = True"
| "closing (OnConnectFail ip port) = True"
| "closing d = False"

definition terminal :: "State \<Rightarrow> bool" where
  "terminal s = (s = kDisconnected \<or> s = kFailed)"

text \<open>
  The setters of \<^verbatim>\<open>tcp_obj.h\<close> that the user calls from the new-connection callback.
\<close>

definition SetMessageCallback ::
  "('u \<Rightarrow> byte list \<Rightarrow> int \<times> 'u) \<Rightarrow> ('t::len word, 'u) TcpObject \<Rightarrow> ('t word, 'u) TcpObject" where
  "SetMessageCallback cb c = c\<lparr>on_message := Some cb\<rparr>"

definition SetOnDisconnect :: "('t::len word, 'u) TcpObject \<Rightarrow> ('t word, 'u) TcpObject" where
  "SetOnDisconnect c = c\<lparr>on_disconnect := True\<rparr>"

section \<open>A connection at work\<close>

text \<open>
  The state that the theorems below are tried on: a process with one loop, and in it the
  connection that the listener's task made at address 7 out of the descriptor 9,
  accepted from 10.0.0.1:4000 and registered under the id 1, with a disconnect callback
  and a message callback \<open>f\<close>. Only the registry holds it.
\<close>

definition accepted_conn :: "(nat \<Rightarrow> byte list \<Rightarrow> int \<times> nat) \<Rightarrow> (64 word, nat) TcpObject" where
  "accepted_conn f =
     (new_TcpObject 0)\<lparr>unique_id := 1, fd := 9, state := kConnected,
        bev := Some (new_bufferevent\<lparr>readcb := True, eventcb := True, read_enabled := True\<rparr>),
        peer_ip := ''10.0.0.1'', peer_port := 4000, on_message := Some f,
        on_disconnect := True, on_new_conn := True\<rparr>"

definition accepted_world :: "(nat \<Rightarrow> byte list \<Rightarrow> int \<times> nat) \<Rightarrow> (64 word, nat) world" where
  "accepted_world f =
     (start_world 3 0)\<lparr>obj_id_generator := 1,
        loop := (new_EventLoop 3)\<lparr>objects := [1 \<mapsto> 7]\<rparr>,
        heap := [7 \<mapsto> accepted_conn f],
        delivered := [OnNewConn 7]\<rparr>"

text \<open>
  Two message callbacks: one consumes all it is shown; the other consumes three bytes
  (or what there is) on its first call and reports a fatal error on the next.
\<close>

definition three_then_fatal :: "nat \<Rightarrow> byte list \<Rightarrow> int \<times> nat" where
  "three_then_fatal u bs = (if u = 0 then (min 3 (int (length bs)), 1) else (- 1, u))"


definition consume_all :: "nat \<Rightarrow> byte list \<Rightarrow> int \<times> nat" where
  "consume_all u bs = (int (length bs), u)"






text \<open>
  A connection made by \<^verbatim>\<open>EventLoop::Connect\<close> at address 7, to 127.0.0.1:80, whose
  handle the caller keeps: registered under the id 1 and waiting for the outcome.
\<close>

definition connecting_conn :: "(64 word, nat) TcpObject" where
  "connecting_conn =
     (new_TcpObject 0)\<lparr>unique_id := 1, fd := 9, state := kConnecting,
        bev := Some (new_bufferevent\<lparr>eventcb := True\<rparr>),
        peer_ip := ''127.0.0.1'', peer_port := 80, on_fail := True, on_new_conn := True\<rparr>"

definition connecting_world :: "(64 word, nat) world" where
  "connecting_world =
     (start_world 3 0)\<lparr>obj_id_generator := 1,
        loop := (new_EventLoop 3)\<lparr>objects := [1 \<mapsto> 7]\<rparr>,
        heap := [7 \<mapsto> connecting_conn], held := {7}\<rparr>"

section \<open>Sending\<close>

text \<open>
  C5. On the loop's thread, \<^verbatim>\<open>SendPacket\<close> on a connection in state
  \<open>kConnected\<close> appends the bytes to the output buffer of its \<^verbatim>\<open>bufferevent\<close> and
  returns true, for every byte sequence; in every other state it logs an error and
  returns false, and the connection, with its buffer, is as before. The vectored
  \<^verbatim>\<open>SendPacket\<close> does the same with the concatenation of its segments.
\<close>

theorem SendPacket_contract:
  fixes c :: "('t::len word, 'u) TcpObject"
  shows
  "(state c = kConnected \<longrightarrow> in_loop \<longrightarrow> bev c = Some b \<longrightarrow>
      SendPacket in_loop (Some bs) c w =
        Inr (True, c\<lparr>bev := Some (b\<lparr>output_buffer := output_buffer b @ bs\<rparr>)\<rparr>, w) \<and>
      SendPacket_iovec in_loop (Some vs) n c w =
        Inr (True,
             c\<lparr>bev := Some (b\<lparr>output_buffer := output_buffer b @ concat (take (nat n) vs)\<rparr>)\<rparr>, w)) \<and>
   (state c \<noteq> kConnected \<longrightarrow>
      SendPacket in_loop data c w = Inr (False, c, log_error ''send tcp data in wrong state'' w) \<and>
      SendPacket_iovec in_loop iov n c w =
        Inr (False, c, log_error ''send tcp data in wrong state'' w))"
proof -
  have same: "c\<lparr>bev := Some b\<rparr> = c" if "bev c = Some b"
    using that by (cases c) simp
  show ?thesis
    by (auto simp: SendPacket_def SendPacket_iovec_def same)
qed

theorem SendPacket_contract_witness:
  "SendPacket True (Some [1, 2])
      ((new_TcpObject 0 :: (64 word, nat) TcpObject)\<lparr>state := kConnected, bev := Some new_bufferevent\<rparr>)
      (start_world 3 0)
     = Inr (True,
            (new_TcpObject 0)\<lparr>state := kConnected,
               bev := Some (new_bufferevent\<lparr>output_buffer := [1, 2]\<rparr>)\<rparr>,
            start_world 3 0) \<and>
   SendPacket_iovec True (Some [[1], [2, 3]]) 2
      ((new_TcpObject 0 :: (64 word, nat) TcpObject)\<lparr>state := kConnected, bev := Some new_bufferevent\<rparr>)
      (start_world 3 0)
     = Inr (True,
            (new_TcpObject 0)\<lparr>state := kConnected,
               bev := Some (new_bufferevent\<lparr>output_buffer := [1, 2, 3]\<rparr>)\<rparr>,
            start_world 3 0) \<and>
   SendPacket True (Some [1, 2]) (new_TcpObject 0 :: (64 word, nat) TcpObject) (start_world 3 0)
     = Inr (False, new_TcpObject 0, log_error ''send tcp data in wrong state'' (start_world 3 0)) \<and>
   SendPacket_iovec True (Some [[1], [2, 3]]) 2 (new_TcpObject 0 :: (64 word, nat) TcpObject)
      (start_world 3 0)
     = Inr (False, new_TcpObject 0, log_error ''send tcp data in wrong state'' (start_world 3 0))"
proof -
  let ?c = "(new_TcpObject 0 :: (64 word, nat) TcpObject)\<lparr>state := kConnected, bev := Some new_bufferevent\<rparr>"
  let ?d = "new_TcpObject 0 :: (64 word, nat) TcpObject"
  let ?w = "start_world 3 0 :: (64 word, nat) world"
  have h: "state ?c = kConnected" "bev ?c = Some new_bufferevent" "state ?d \<noteq> kConnected"
    by (simp_all add: new_TcpObject_def)
  from SendPacket_contract [of ?c True new_bufferevent "[1, 2]" ?w "[[1], [2, 3]]" 2] h
  have a: "SendPacket True (Some [1, 2]) ?c ?w =
             Inr (True, ?c\<lparr>bev := Some (new_bufferevent\<lparr>output_buffer :=
                    output_buffer new_bufferevent @ [1, 2]\<rparr>)\<rparr>, ?w) \<and>
           SendPacket_iovec True (Some [[1], [2, 3]]) 2 ?c ?w =
             Inr (True, ?c\<lparr>bev := Some (new_bufferevent\<lparr>output_buffer :=
                    output_buffer new_bufferevent @ concat (take (nat 2) [[1], [2, 3]])\<rparr>)\<rparr>, ?w)"
    by blast
  from SendPacket_contract [of ?d True _ _ ?w _ 2 "Some [1, 2]" "Some [[1], [2, 3]]"] h
  have b: "SendPacket True (Some [1, 2]) ?d ?w =
             Inr (False, ?d, log_error ''send tcp data in wrong state'' ?w) \<and>
           SendPacket_iovec True (Some [[1], [2, 3]]) 2 ?d ?w =
             Inr (False, ?d, log_error ''send tcp data in wrong state'' ?w)"
    by blast
  from a b show ?thesis by (simp add: new_bufferevent_def)
qed

section \<open>Registering with the reactor\<close>

lemma reactor_Register_zero:
  "reactor_Register (Some ob) 0 r = Inr (True, r)"
  by (simp add: reactor_Register_def)

lemma reactor_Register_repeat:
  "events \<noteq> 0 \<Longrightarrow> 0 \<le> unique_id ob \<Longrightarrow> reactor_objects r (unique_id ob) \<noteq> None \<Longrightarrow>
   reactor_Register (Some ob) events r = Inr (False, r)"
  by (auto simp: reactor_Register_def)

text \<open>
  C6, as the claim states it, fails: registering with the mask zero an object that the
  reactor already holds a record for returns true, and registering with the mask zero
  leaves the reactor without a record of the object.
\<close>

theorem reactor_Register_zero_counterexample:
  "reactor_objects
      (new_LibeventReactor\<lparr>reactor_objects := [1 \<mapsto> \<lparr>read_event = Some 5, write_event = None\<rparr>]\<rparr>
         :: (64 word, nat) LibeventReactor) 1 \<noteq> None \<and>
   reactor_Register (Some \<lparr>unique_id = 1, fd = 5\<rparr>) 0
      (new_LibeventReactor\<lparr>reactor_objects := [1 \<mapsto> \<lparr>read_event = Some 5, write_event = None\<rparr>]\<rparr>
         :: (64 word, nat) LibeventReactor)
     = Inr (True,
            new_LibeventReactor\<lparr>reactor_objects := [1 \<mapsto> \<lparr>read_event = Some 5, write_event = None\<rparr>]\<rparr>) \<and>
   reactor_Register (Some \<lparr>unique_id = 1, fd = 5\<rparr>) 0 (new_LibeventReactor :: (64 word, nat) LibeventReactor)
     = Inr (True, new_LibeventReactor) \<and>
   reactor_objects (new_LibeventReactor :: (64 word, nat) LibeventReactor) 1 = None"
  by (simp add: reactor_Register_def new_LibeventReactor_def)

text \<open>
  C6, amended. \<^verbatim>\<open>LibeventReactor::Register\<close> with the mask zero returns true for
  every object and leaves the reactor as it was: no watch is installed and no record is
  made, whether or not the object is registered already. With a mask other than zero it
  returns false, and changes nothing, whenever the reactor holds a record under the
  object's id.
\<close>

theorem reactor_Register_contract:
  "reactor_Register (Some ob) 0 r = Inr (True, r) \<and>
   (events \<noteq> 0 \<longrightarrow> 0 \<le> unique_id ob \<longrightarrow> reactor_objects r (unique_id ob) \<noteq> None \<longrightarrow>
      reactor_Register (Some ob) events r = Inr (False, r))"
  by (simp add: reactor_Register_zero reactor_Register_repeat)

theorem reactor_Register_contract_witness:
  "reactor_Register (Some \<lparr>unique_id = 1, fd = 5\<rparr>) kEventRead
      (new_LibeventReactor\<lparr>reactor_objects := [1 \<mapsto> \<lparr>read_event = Some 5, write_event = None\<rparr>]\<rparr>
         :: (64 word, nat) LibeventReactor)
     = Inr (False,
            new_LibeventReactor\<lparr>reactor_objects := [1 \<mapsto> \<lparr>read_event = Some 5, write_event = None\<rparr>]\<rparr>)"
proof -
  let ?r = "new_LibeventReactor\<lparr>reactor_objects := [1 \<mapsto> \<lparr>read_event = Some 5, write_event = None\<rparr>]\<rparr>
              :: (64 word, nat) LibeventReactor"
  let ?ob = "\<lparr>unique_id = 1, fd = 5\<rparr>"
  have h: "kEventRead \<noteq> 0" "0 \<le> unique_id ?ob" "reactor_objects ?r (unique_id ?ob) \<noteq> None"
    by (simp_all add: kEventRead_def)
  from reactor_Register_contract [of ?ob ?r kEventRead] h show ?thesis
    by blast
qed

section \<open>Identifiers\<close>

lemma int32_id: "- 2147483648 \<le> x \<Longrightarrow> x \<le> 2147483647 \<Longrightarrow> int32 x = x"
  by (simp add: int32_def signed_take_bit_int_eq_self_iff)

lemma int32_range: "- 2147483648 \<le> int32 x \<and> int32 x \<le> 2147483647"
  using signed_take_bit_int_greater_eq_minus_exp [of 31 x] signed_take_bit_int_less_exp [of 31 x]
  by (simp add: int32_def)

lemma alloc_unique_id_sound:
  assumes a: "alloc_unique_id g objs = Some y"
  shows "0 \<le> fst y \<and> objs (fst y) = None \<and> snd y = fst y"
  by (rule alloc_unique_id.raw_induct
        [where P = "\<lambda>g objs y. 0 \<le> fst y \<and> objs (fst y) = None \<and> snd y = fst y", OF _ a])
     (auto split: if_splits)

lemma alloc_up:
  assumes "objs k = None" "0 \<le> g" "g < k" "k \<le> 2147483647"
  shows "\<exists>r. alloc_unique_id g objs = Some r"
  using assms
proof (induction "nat (k - g)" arbitrary: g rule: less_induct)
  case less
  have e: "int32 (g + 1) = g + 1" using less.prems by (intro int32_id) auto
  show ?case
  proof (cases "objs (g + 1) = None")
    case True
    then show ?thesis using less.prems e by (subst alloc_unique_id.simps) simp
  next
    case False
    then have "g + 1 \<noteq> k" using less.prems by auto
    then have "\<exists>r. alloc_unique_id (g + 1) objs = Some r"
      using less.prems by (intro less.hyps) auto
    then show ?thesis using False less.prems e by (subst alloc_unique_id.simps) auto
  qed
qed

lemma alloc_wrap:
  assumes "objs k = None" "0 < k" "k \<le> 2147483647" "0 \<le> g" "g \<le> 2147483647"
  shows "\<exists>r. alloc_unique_id g objs = Some r"
  using assms
proof (induction "nat (2147483647 - g)" arbitrary: g rule: less_induct)
  case less
  show ?case
  proof (cases "g < k")
    case True
    then show ?thesis using less.prems alloc_up by blast
  next
    case False
    show ?thesis
    proof (cases "g = 2147483647")
      case True
      have "int32 (g + 1) < 0" using True by (simp add: int32_def)
      moreover have "\<exists>r. alloc_unique_id 0 objs = Some r"
        using alloc_up [of objs k 0] less.prems by auto
      ultimately show ?thesis by (subst alloc_unique_id.simps) simp
    next
      case g: False
      have e: "int32 (g + 1) = g + 1" using less.prems g by (intro int32_id) auto
      have "\<exists>r. alloc_unique_id (g + 1) objs = Some r"
        using less.prems g by (intro less.hyps) auto
      then show ?thesis using less.prems e
        by (subst alloc_unique_id.simps) auto
    qed
  qed
qed

lemma alloc_unique_id_returns:
  assumes "objs k = None" "0 < k" "k \<le> INT_MAX"
  shows "\<exists>r. alloc_unique_id g objs = Some r"
proof -
  let ?g = "int32 (g + 1)"
  have k: "k \<le> 2147483647" using assms by (simp add: INT_MAX_def)
  have r: "- 2147483648 \<le> ?g \<and> ?g \<le> 2147483647" by (rule int32_range)
  have z: "\<exists>r. alloc_unique_id 0 objs = Some r" using alloc_wrap [of objs k 0] assms k by simp
  show ?thesis
  proof (cases "?g < 0")
    case True
    then show ?thesis using z by (subst alloc_unique_id.simps) simp
  next
    case False
    then have "\<exists>r. alloc_unique_id ?g objs = Some r" using alloc_wrap [of objs k ?g] assms k r by simp
    then show ?thesis using False by (subst alloc_unique_id.simps) auto
  qed
qed

lemma alloc_unique_id_wrap: "alloc_unique_id INT_MAX objs = alloc_unique_id 0 objs"
  by (subst alloc_unique_id.simps) (simp add: INT_MAX_def int32_def)

lemma Register_True:
  assumes "Register in_loop (Some p) ob events w = Some (Inr (True, ob', w'))"
  shows "0 \<le> unique_id ob' \<and> objects (loop w) (unique_id ob') = None \<and>
         objects (loop w') = (objects (loop w))(unique_id ob' \<mapsto> p) \<and>
         obj_id_generator w' = unique_id ob'"
proof -
  from assms obtain r uid g ok r' where
    a: "alloc_unique_id (obj_id_generator w) (objects (loop w)) = Some (uid, g)" and
    o: "ob' = ob\<lparr>unique_id := uid\<rparr>" and
    w: "w' = w\<lparr>obj_id_generator := g,
              loop := (loop w)\<lparr>reactor := Some r', objects := map_insert uid p (objects (loop w))\<rparr>\<rparr>"
    by (auto simp: Register_def split: if_splits option.splits sum.splits prod.splits)
  from alloc_unique_id_sound [OF a] show ?thesis
    by (simp add: o w map_insert_def)
qed

lemma Register_returns:
  assumes "in_loop" "unique_id ob = - 1" "objects (loop w) k = None" "0 < k" "k \<le> INT_MAX"
  shows "\<exists>ok ob' w'. Register in_loop (Some p) ob events w = Some (Inr (ok, ob', w'))"
proof (cases "reactor (loop w)")
  case None
  then have "Register in_loop (Some p) ob events w = Some (Inr (False, ob, w))"
    using assms by (simp add: Register_def)
  then show ?thesis by blast
next
  case (Some r)
  from alloc_unique_id_returns [of "objects (loop w)" k "obj_id_generator w"] assms obtain uid g where
    a: "alloc_unique_id (obj_id_generator w) (objects (loop w)) = Some (uid, g)" by fastforce
  from alloc_unique_id_sound [OF a] have u: "0 \<le> uid" by simp
  have "\<exists>ok r'. reactor_Register (Some (ob\<lparr>unique_id := uid\<rparr>)) events r = Inr (ok, r')"
    using u by (auto simp: reactor_Register_def Let_def)
  then show ?thesis using assms Some a
    by (auto simp: Register_def)
qed

lemma Register_ids_ok:
  assumes "Register in_loop (Some p) ob events w = Some (Inr (ok, ob', w'))" "registry_ids_ok w"
  shows "registry_ids_ok w'"
proof (cases ok)
  case True
  with Register_True [of in_loop p ob events w ob' w'] assms show ?thesis
    by (auto simp: registry_ids_ok_def)
next
  case False
  with assms have "objects (loop w') = objects (loop w)"
    by (auto simp: Register_def split: if_splits option.splits sum.splits prod.splits)
  with assms show ?thesis by (simp add: registry_ids_ok_def)
qed

lemma Unregister_ids_ok:
  assumes "Unregister in_loop p ob w = Inr w'" "registry_ids_ok w"
  shows "registry_ids_ok w'"
  using assms
  by (auto simp: Unregister_def registry_ids_ok_def split: if_splits option.splits)

lemma Execute_False:
  "Execute False wk w = Inr (next_future w,
                w\<lparr>next_future := next_future w + 1,
                  loop := (loop w)\<lparr>tasks := tasks (loop w) @ [Task (next_future w) wk],
                                    notifier := Notify (notifier (loop w))\<rparr>\<rparr>)"
  by (simp add: Execute_def)

lemma ScheduleLater_id:
  "ScheduleLater in_loop ms cb w = Inr (tid, w') \<Longrightarrow>
   tid = timerid_generator w + 1 \<and> timerid_generator w' = tid"
  by (auto simp: ScheduleLater_def Execute_False split: if_splits option.splits)

lemma ScheduleRepeatedly_id:
  "ScheduleRepeatedly in_loop ms cb w = Inr (tid, w') \<Longrightarrow>
   tid = timerid_generator w + 1 \<and> timerid_generator w' = tid"
  by (auto simp: ScheduleRepeatedly_def Execute_False split: if_splits option.splits)

lemma schedule_run_ids:
  "schedule_run rs w = Inr (tids, w') \<Longrightarrow>
   tids = map (\<lambda>k. timerid_generator w + of_nat (Suc k)) [0..<length rs] \<and>
   timerid_generator w' = timerid_generator w + of_nat (length rs)"
proof (induction rs arbitrary: w tids w')
  case Nil
  then show ?case by simp
next
  case (Cons r rs)
  obtain il rep ms cb where r: "r = (il, rep, ms, cb)" by (cases r) auto
  from Cons.prems r obtain tid w1 tids1 where
    s: "(if rep then ScheduleRepeatedly il ms cb w else ScheduleLater il ms cb w) = Inr (tid, w1)" and
    t: "schedule_run rs w1 = Inr (tids1, w')" and
    e: "tids = tid # tids1"
    by (auto split: sum.splits prod.splits)
  have g: "tid = timerid_generator w + 1 \<and> timerid_generator w1 = tid"
  proof (cases rep)
    case True
    with s show ?thesis using ScheduleRepeatedly_id [of il ms cb w tid w1] by simp
  next
    case False
    with s show ?thesis using ScheduleLater_id [of il ms cb w tid w1] by simp
  qed
  from Cons.IH [OF t] g e show ?case
    by (simp add: upt_rec [of 0] map_Suc_upt [symmetric] del: upt_Suc add: algebra_simps)
qed

lemma word_run_distinct:
  assumes "n \<le> 2 ^ LENGTH('t::len)"
  shows "distinct (map (\<lambda>k. (g :: 't word) + of_nat (Suc k)) [0..<n])"
proof -
  have "inj_on (\<lambda>k. g + (of_nat (Suc k) :: 't word)) {0..<n}"
  proof (rule inj_onI)
    fix x y assume x: "x \<in> {0..<n}" and y: "y \<in> {0..<n}"
      and e: "g + (of_nat (Suc x) :: 't word) = g + of_nat (Suc y)"
    then have "(of_nat x :: 't word) = of_nat y" by simp
    then have "take_bit LENGTH('t) x = take_bit LENGTH('t) y" by (simp add: word_of_nat_eq_iff)
    moreover have "x < 2 ^ LENGTH('t)" "y < 2 ^ LENGTH('t)" using x y assms by auto
    ultimately show "x = y" by (simp add: take_bit_nat_eq_self)
  qed
  then show ?thesis by (simp add: distinct_map)
qed

lemma alloc_start: "alloc_unique_id 0 Map.empty = Some (1, 1)"
  by (subst alloc_unique_id.simps) (simp add: int32_def)

lemma Register_start:
  "Register True (Some 7) (new_TcpObject 0 :: (64 word, nat) TcpObject) 0 (start_world 3 0)
   = Some (Inr (True, (new_TcpObject 0)\<lparr>unique_id := 1\<rparr>,
       (start_world 3 0)\<lparr>obj_id_generator := 1, loop := (new_EventLoop 3)\<lparr>objects := [1 \<mapsto> 7]\<rparr>\<rparr>))"
  by (simp add: Register_def new_TcpObject_def start_world_def new_EventLoop_def alloc_start
        reactor_Register_def map_insert_def)

lemma schedule_run_start:
  "schedule_run [(True, False, 50, UserCb 0 id), (False, True, 100, UserCb 1 id)]
     (start_world 3 0 :: (64 word, nat) world)
   = Inr ([1, 2],
       (start_world 3 0)\<lparr>timerid_generator := 2, next_future := 1,
          loop := (new_EventLoop 3)\<lparr>
            reactor := Some (reactor_ScheduleLater 1 50 (UserCb 0 id) new_LibeventReactor),
            tasks := [Task 0 (ArmTimer 2 100 (UserCb 1 id) True)],
            notifier := Notify (new_PipeObject 3)\<rparr>\<rparr>)"
  by (simp add: ScheduleLater_def ScheduleRepeatedly_def Execute_def start_world_def new_EventLoop_def)

text \<open>
  C8, as the claim states it, fails for timer ids. Their generator is only ever
  incremented: at the largest positive value the next id is negative and the generator
  is not reset to zero, and an id that a live timer holds is handed out again.
\<close>

theorem timer_id_counterexample:
  "\<not> isl (ScheduleLater True 5 (UserCb 0 id)
            ((start_world 3 0 :: (64 word, nat) world)\<lparr>timerid_generator := 0x7FFFFFFFFFFFFFFF\<rparr>)) \<and>
   sint (fst (projr (ScheduleLater True 5 (UserCb 0 id)
            ((start_world 3 0 :: (64 word, nat) world)\<lparr>timerid_generator := 0x7FFFFFFFFFFFFFFF\<rparr>))))
     = - 9223372036854775808 \<and>
   timerid_generator (snd (projr (ScheduleLater True 5 (UserCb 0 id)
            ((start_world 3 0 :: (64 word, nat) world)\<lparr>timerid_generator := 0x7FFFFFFFFFFFFFFF\<rparr>))))
     = 0x8000000000000000 \<and>
   timers (reactor_ScheduleRepeatedly 1 1000 (UserCb 0 id) (new_LibeventReactor :: (64 word, nat) LibeventReactor)) 1
     \<noteq> None \<and>
   fst (projr (ScheduleLater True 5 (UserCb 1 id)
            ((start_world 3 0 :: (64 word, nat) world)\<lparr>loop := (new_EventLoop 3)\<lparr>reactor :=
                Some (reactor_ScheduleRepeatedly 1 1000 (UserCb 0 id) new_LibeventReactor)\<rparr>\<rparr>)))
     = 1"
  by (simp add: ScheduleLater_def start_world_def new_EventLoop_def reactor_ScheduleRepeatedly_def
        Schedule_def new_LibeventReactor_def)

text \<open>
  C8, amended. A registration that succeeds gives the object an id that is at least
  zero and under which the loop's registry held no object, and adds it to the registry
  without touching the other entries, so the ids of the objects registered in one loop
  are pairwise distinct and at least zero; it returns whenever some id in
  \<open>1 .. INT_MAX\<close> is free, and a generator that has reached \<open>INT_MAX\<close> wraps to a
  negative value, is reset to zero and goes on from there. Timer ids are the successive
  values of a second counter that is neither reset nor compared with the ids in use:
  a run of at most \<open>2 ^ LENGTH('t)\<close> calls of \<^verbatim>\<open>ScheduleLater\<close> and
  \<^verbatim>\<open>ScheduleRepeatedly\<close> returns pairwise distinct ids.
\<close>

theorem id_allocation:
  fixes w :: "('t::len word, 'u) world"
  shows
  "(Register in_loop (Some p) ob events w = Some (Inr (True, ob', w')) \<longrightarrow>
      0 \<le> unique_id ob' \<and> objects (loop w) (unique_id ob') = None \<and>
      objects (loop w') = (objects (loop w))(unique_id ob' \<mapsto> p) \<and>
      (registry_ids_ok w \<longrightarrow> registry_ids_ok w')) \<and>
   (in_loop \<longrightarrow> unique_id ob = - 1 \<longrightarrow> 0 < k \<longrightarrow> k \<le> INT_MAX \<longrightarrow> objects (loop w) k = None \<longrightarrow>
      (\<exists>ok ob' w'. Register in_loop (Some p) ob events w = Some (Inr (ok, ob', w')))) \<and>
   alloc_unique_id INT_MAX (objects (loop w)) = alloc_unique_id 0 (objects (loop w)) \<and>
   (schedule_run rs w = Inr (tids, w2) \<longrightarrow>
      tids = map (\<lambda>k. timerid_generator w + of_nat (Suc k)) [0..<length rs] \<and>
      (length rs \<le> 2 ^ LENGTH('t) \<longrightarrow> distinct tids))"
proof (intro conjI impI)
  assume r: "Register in_loop (Some p) ob events w = Some (Inr (True, ob', w'))"
  from Register_True [OF r]
  show "0 \<le> unique_id ob'" "objects (loop w) (unique_id ob') = None"
    "objects (loop w') = (objects (loop w))(unique_id ob' \<mapsto> p)" by simp_all
  show "registry_ids_ok w'" if "registry_ids_ok w" using Register_ids_ok [OF r that] .
next
  assume "in_loop" "unique_id ob = - 1" "0 < k" "k \<le> INT_MAX" "objects (loop w) k = None"
  then show "\<exists>ok ob' w'. Register in_loop (Some p) ob events w = Some (Inr (ok, ob', w'))"
    by (intro Register_returns) auto
next
  show "alloc_unique_id INT_MAX (objects (loop w)) = alloc_unique_id 0 (objects (loop w))"
    by (rule alloc_unique_id_wrap)
next
  assume s: "schedule_run rs w = Inr (tids, w2)"
  from schedule_run_ids [OF s]
  show t: "tids = map (\<lambda>k. timerid_generator w + of_nat (Suc k)) [0..<length rs]" by simp
  show "distinct tids" if "length rs \<le> 2 ^ LENGTH('t)"
    unfolding t using that by (rule word_run_distinct)
qed

theorem id_allocation_witness:
  "0 \<le> unique_id ((new_TcpObject 0 :: (64 word, nat) TcpObject)\<lparr>unique_id := 1\<rparr>) \<and>
   registry_ids_ok ((start_world 3 0 :: (64 word, nat) world)\<lparr>obj_id_generator := 1,
      loop := (new_EventLoop 3)\<lparr>objects := [1 \<mapsto> 7]\<rparr>\<rparr>) \<and>
   (\<exists>ok ob' w'. Register True (Some 7) (new_TcpObject 0 :: (64 word, nat) TcpObject) 0
       (start_world 3 0 :: (64 word, nat) world) = Some (Inr (ok, ob', w'))) \<and>
   distinct [1, 2 :: 64 word]"
proof -
  let ?w = "start_world 3 0 :: (64 word, nat) world"
  let ?ob = "new_TcpObject 0 :: (64 word, nat) TcpObject"
  let ?rs = "[(True, False, 50, UserCb 0 id), (False, True, 100, UserCb 1 id)]
               :: (bool \<times> bool \<times> int \<times> nat callback) list"
  note t = id_allocation [of True 7 ?ob 0 ?w "?ob\<lparr>unique_id := 1\<rparr>"
      "?w\<lparr>obj_id_generator := 1, loop := (new_EventLoop 3)\<lparr>objects := [1 \<mapsto> 7]\<rparr>\<rparr>" 5 ?rs "[1, 2]"
      "?w\<lparr>timerid_generator := 2, next_future := 1,
          loop := (new_EventLoop 3)\<lparr>
            reactor := Some (reactor_ScheduleLater 1 50 (UserCb 0 id) new_LibeventReactor),
            tasks := [Task 0 (ArmTimer 2 100 (UserCb 1 id) True)],
            notifier := Notify (new_PipeObject 3)\<rparr>\<rparr>"]
  have h1: "registry_ids_ok ?w"
    by (simp add: registry_ids_ok_def start_world_def new_EventLoop_def)
  have h2: "unique_id ?ob = - 1" "(0::int) < 5" "(5::int) \<le> INT_MAX" "objects (loop ?w) 5 = None"
    by (simp_all add: new_TcpObject_def INT_MAX_def start_world_def new_EventLoop_def)
  have h3: "length ?rs \<le> 2 ^ LENGTH(64)" by simp
  note a = t [THEN conjunct1, THEN mp, OF Register_start]
  note a0 = a [THEN conjunct1]
  note a3 = a [THEN conjunct2, THEN conjunct2, THEN conjunct2, THEN mp, OF h1]
  note b = t [THEN conjunct2, THEN conjunct1, THEN mp, THEN mp, THEN mp, THEN mp, THEN mp,
      OF TrueI h2]
  note c = t [THEN conjunct2, THEN conjunct2, THEN conjunct2, THEN mp, OF schedule_run_start,
      THEN conjunct2, THEN mp, OF h3]
  show ?thesis by (rule conjI a0 a3 b c)+
qed

section \<open>Connecting\<close>

lemma Register_zero_True:
  assumes "Register in_loop (Some p) ob 0 w = Some (Inr (ok, ob', w'))" "reactor (loop w) \<noteq> None"
  shows "ok"
  using assms
  by (auto simp: Register_def reactor_Register_def split: if_splits option.splits sum.splits prod.splits)

lemma Connect_start:
  "EventLoop_Connect True 7 0 ''127.0.0.1'' 80 True True True 0 9
            (start_world 3 0 :: (64 word, nat) world) =
   Some (Inr (Some 7,
     (start_world 3 0)\<lparr>obj_id_generator := 1,
        loop := (new_EventLoop 3)\<lparr>objects := [1 \<mapsto> 7]\<rparr>,
        heap := [7 \<mapsto> (new_TcpObject 0)\<lparr>unique_id := 1, fd := 9, state := kConnecting,
                   bev := Some (new_bufferevent\<lparr>eventcb := True\<rparr>),
                   peer_ip := ''127.0.0.1'', peer_port := 80,
                   on_fail := True, on_new_conn := True\<rparr>]\<rparr>))"
  by (simp add: EventLoop_Connect_def TcpObject_Connect_def Register_def new_TcpObject_def
        start_world_def new_EventLoop_def alloc_start reactor_Register_def map_insert_def)

text \<open>
  C10. On the loop's thread and while the loop has its reactor, \<^verbatim>\<open>EventLoop::Connect\<close>
  returns the null handle whenever the \<^verbatim>\<open>bufferevent\<close> cannot be created or
  \<^verbatim>\<open>bufferevent_socket_connect\<close> reports an error, and then the loop's registry and the
  heap are as before. In every other case the registration, whose mask is zero, does
  not fail: the handle returned is the new connection, registered and in state
  \<open>kConnecting\<close>.
\<close>

theorem EventLoop_Connect_null:
  fixes w :: "('t::len word, 'u) world"
  assumes "in_loop" and "reactor (loop w) \<noteq> None"
  shows
  "(\<not> bev_ok \<or> err \<noteq> 0 \<longrightarrow>
      (\<exists>w'. EventLoop_Connect in_loop p now ip port ccb fcb bev_ok err sock w = Some (Inr (None, w')) \<and>
            objects (loop w') = objects (loop w) \<and> heap w' = heap w)) \<and>
   (bev_ok \<longrightarrow> err = 0 \<longrightarrow>
      EventLoop_Connect in_loop p now ip port ccb fcb bev_ok err sock w = Some (Inr (h, w')) \<longrightarrow>
      h = Some p \<and> (\<exists>uid. objects (loop w') uid = Some p \<and> objects (loop w) uid = None) \<and>
      (\<exists>c. heap w' p = Some c \<and> state c = kConnecting))"
proof (intro conjI impI)
  assume f: "\<not> bev_ok \<or> err \<noteq> 0"
  let ?c = "(new_TcpObject now :: ('t word, 'u) TcpObject)\<lparr>on_new_conn := ccb, on_fail := fcb\<rparr>"
  have s: "state ?c = kNone" by (simp add: new_TcpObject_def)
  from f assms s
  have "TcpObject_Connect in_loop p ip port bev_ok err sock ?c w =
          Some (Inr (False, ?c, log_error (if \<not> bev_ok then ''can not new bufferevent''
                                       else ''bufferevent_socket_connect failed'') w))"
    by (auto simp: TcpObject_Connect_def)
  then show "\<exists>w'. EventLoop_Connect in_loop p now ip port ccb fcb bev_ok err sock w = Some (Inr (None, w')) \<and>
            objects (loop w') = objects (loop w) \<and> heap w' = heap w"
    by (simp add: EventLoop_Connect_def log_error_def)
next
  assume b: "bev_ok" "err = 0"
    and e: "EventLoop_Connect in_loop p now ip port ccb fcb bev_ok err sock w = Some (Inr (h, w'))"
  let ?c = "(new_TcpObject now :: ('t word, 'u) TcpObject)\<lparr>on_new_conn := ccb, on_fail := fcb\<rparr>"
  have s: "state ?c = kNone" by (simp add: new_TcpObject_def)
  from e obtain ok c1 w1 where
    t: "TcpObject_Connect in_loop p ip port bev_ok err sock ?c w = Some (Inr (ok, c1, w1))"
    by (auto simp: EventLoop_Connect_def split: option.splits sum.splits prod.splits)
  from t b assms s obtain ok2 c2 w2 where
    r: "Register in_loop (Some p) ?c 0 w = Some (Inr (ok2, c2, w2))"
    by (auto simp: TcpObject_Connect_def split: option.splits sum.splits prod.splits)
  from Register_zero_True [OF r assms(2)] have ok2: ok2 .
  from t r b assms s ok2 have ok: ok and
    c1: "c1 = c2\<lparr>fd := sock, bev := Some (new_bufferevent\<lparr>eventcb := True\<rparr>),
                 peer_ip := ip, peer_port := port, state := kConnecting\<rparr>" and w1: "w1 = w2"
    by (auto simp: TcpObject_Connect_def)
  from e t ok have h: "h = Some p" and w': "w' = w1\<lparr>heap := (heap w1)(p \<mapsto> c1)\<rparr>"
    by (auto simp: EventLoop_Connect_def)
  from Register_True [of in_loop p ?c 0 w c2 w2] r ok2
  have g: "objects (loop w) (unique_id c2) = None"
     "objects (loop w2) = (objects (loop w))(unique_id c2 \<mapsto> p)" by auto
  show "h = Some p" by (rule h)
  show "\<exists>uid. objects (loop w') uid = Some p \<and> objects (loop w) uid = None"
    using g w' w1 by (intro exI [of _ "unique_id c2"]) simp
  show "\<exists>c. heap w' p = Some c \<and> state c = kConnecting"
    using w' c1 by simp
qed

theorem EventLoop_Connect_null_witness:
  "(\<exists>w'. EventLoop_Connect True 7 0 ''127.0.0.1'' 80 True True False 0 9
            (start_world 3 0 :: (64 word, nat) world) = Some (Inr (None, w')) \<and>
         objects (loop w') = objects (loop (start_world 3 0 :: (64 word, nat) world)) \<and>
         heap w' = heap (start_world 3 0 :: (64 word, nat) world)) \<and>
   (\<exists>w'. EventLoop_Connect True 7 0 ''127.0.0.1'' 80 True True True (- 1) 9
            (start_world 3 0 :: (64 word, nat) world) = Some (Inr (None, w')) \<and>
         objects (loop w') = objects (loop (start_world 3 0 :: (64 word, nat) world)) \<and>
         heap w' = heap (start_world 3 0 :: (64 word, nat) world)) \<and>
   (\<exists>uid. objects (loop ((start_world 3 0 :: (64 word, nat) world)\<lparr>obj_id_generator := 1,
        loop := (new_EventLoop 3)\<lparr>objects := [1 \<mapsto> 7]\<rparr>,
        heap := [7 \<mapsto> (new_TcpObject 0)\<lparr>unique_id := 1, fd := 9, state := kConnecting,
                   bev := Some (new_bufferevent\<lparr>eventcb := True\<rparr>),
                   peer_ip := ''127.0.0.1'', peer_port := 80,
                   on_fail := True, on_new_conn := True\<rparr>]\<rparr>)) uid = Some 7 \<and>
      objects (loop (start_world 3 0 :: (64 word, nat) world)) uid = None)"
proof -
  let ?w = "start_world 3 0 :: (64 word, nat) world"
  have r: "reactor (loop ?w) \<noteq> None" by (simp add: start_world_def new_EventLoop_def)
  have f1: "\<not> False \<or> (0::int) \<noteq> 0" by simp
  have f2: "\<not> True \<or> (- 1::int) \<noteq> 0" by simp
  note a = EventLoop_Connect_null [OF TrueI r, of False 0 7 0 "''127.0.0.1''" 80 True True 9,
      THEN conjunct1, THEN mp, OF f1]
  note b = EventLoop_Connect_null [OF TrueI r, of True "- 1" 7 0 "''127.0.0.1''" 80 True True 9,
      THEN conjunct1, THEN mp, OF f2]
  note c = EventLoop_Connect_null [OF TrueI r, of True 0 7 0 "''127.0.0.1''" 80 True True 9,
      THEN conjunct2, THEN mp, THEN mp, THEN mp, OF TrueI refl Connect_start,
      THEN conjunct2, THEN conjunct1]
  show ?thesis by (rule conjI a b c)+
qed

section \<open>Timer periods\<close>

lemma c_div_1000_mult: "c_div (1000 * x) 1000 = x"
proof -
  have "\<bar>1000 * x\<bar> div 1000 = \<bar>x\<bar>" by (simp add: abs_mult)
  then show ?thesis
    by (simp add: c_div_def sgn_mult mult_sgn_abs)
qed

lemma armed_split: "1000 * c_div ms 1000 + c_div (1000 * c_mod ms 1000) 1000 = ms"
  unfolding c_div_1000_mult by (simp add: c_mod_def)

lemma armed_ms_Schedule:
  "timers (Schedule tid ms cb rep r) tid = Some t \<Longrightarrow> armed_ms t = ms \<and> repeat t = rep \<and> callback t = cb"
  by (auto simp: Schedule_def armed_ms_def armed_split)

lemma clamp_ms_fits:
  assumes "duration_cast_milliseconds d \<le> INT_MAX"
  shows "clamp_ms d = max 1 (duration_cast_milliseconds d)" "1 \<le> clamp_ms d"
proof -
  have "int32 (max 1 (duration_cast_milliseconds d)) = max 1 (duration_cast_milliseconds d)"
    using assms by (intro int32_id) (auto simp: INT_MAX_def)
  then show "clamp_ms d = max 1 (duration_cast_milliseconds d)" by (simp add: clamp_ms_def)
  then show "1 \<le> clamp_ms d" by simp
qed

lemma ScheduleLater_True:
  assumes "ScheduleLater True ms cb w = Inr (tid, w')"
  shows "\<exists>r t. reactor (loop w') = Some r \<and> timers r tid = Some t \<and> armed_ms t = ms \<and>
               \<not> repeat t \<and> callback t = cb"
proof -
  from assms obtain r where r: "reactor (loop w) = Some r"
    and t: "tid = timerid_generator w + 1"
    and w': "reactor (loop w') = Some (reactor_ScheduleLater tid ms cb r)"
    by (auto simp: ScheduleLater_def split: option.splits)
  have "timers (reactor_ScheduleLater tid ms cb r) tid \<noteq> None"
    by (simp add: reactor_ScheduleLater_def Schedule_def)
  then obtain t where tt: "timers (Schedule tid ms cb False r) tid = Some t"
    by (auto simp: reactor_ScheduleLater_def)
  from armed_ms_Schedule [OF tt] tt w' show ?thesis
    by (auto simp: reactor_ScheduleLater_def)
qed

lemma ScheduleRepeatedly_True:
  assumes "ScheduleRepeatedly True ms cb w = Inr (tid, w')"
  shows "\<exists>r t. reactor (loop w') = Some r \<and> timers r tid = Some t \<and> armed_ms t = ms \<and>
               repeat t \<and> callback t = cb"
proof -
  from assms obtain r where r: "reactor (loop w) = Some r"
    and t: "tid = timerid_generator w + 1"
    and w': "reactor (loop w') = Some (reactor_ScheduleRepeatedly tid ms cb r)"
    by (auto simp: ScheduleRepeatedly_def split: option.splits)
  have "timers (reactor_ScheduleRepeatedly tid ms cb r) tid \<noteq> None"
    by (simp add: reactor_ScheduleRepeatedly_def Schedule_def)
  then obtain t where tt: "timers (Schedule tid ms cb True r) tid = Some t"
    by (auto simp: reactor_ScheduleRepeatedly_def)
  from armed_ms_Schedule [OF tt] tt w' show ?thesis
    by (auto simp: reactor_ScheduleRepeatedly_def)
qed

lemma ScheduleLater_False:
  "ScheduleLater False ms cb w =
     Inr (timerid_generator w + 1,
          w\<lparr>timerid_generator := timerid_generator w + 1, next_future := next_future w + 1,
            loop := (loop w)\<lparr>tasks := tasks (loop w) @
                       [Task (next_future w) (ArmTimer (timerid_generator w + 1) ms cb False)],
                     notifier := Notify (notifier (loop w))\<rparr>\<rparr>)"
  by (simp add: ScheduleLater_def Execute_def)

lemma ScheduleRepeatedly_False:
  "ScheduleRepeatedly False ms cb w =
     Inr (timerid_generator w + 1,
          w\<lparr>timerid_generator := timerid_generator w + 1, next_future := next_future w + 1,
            loop := (loop w)\<lparr>tasks := tasks (loop w) @
                       [Task (next_future w) (ArmTimer (timerid_generator w + 1) ms cb True)],
                     notifier := Notify (notifier (loop w))\<rparr>\<rparr>)"
  by (simp add: ScheduleRepeatedly_def Execute_def)

lemma run_work_ArmTimer:
  assumes "run_work (ArmTimer tid ms cb rep) w = Inr (v, w')"
  shows "\<exists>r t. reactor (loop w') = Some r \<and> timers r tid = Some t \<and> armed_ms t = ms \<and>
               repeat t = rep \<and> callback t = cb"
proof -
  from assms obtain r where r: "reactor (loop w) = Some r"
    and w': "reactor (loop w') = Some (Schedule tid ms cb rep r)"
    by (auto simp: run_work_def reactor_ScheduleLater_def reactor_ScheduleRepeatedly_def
          split: option.splits)
  have "timers (Schedule tid ms cb rep r) tid \<noteq> None" by (simp add: Schedule_def)
  then obtain t where tt: "timers (Schedule tid ms cb rep r) tid = Some t" by auto
  from armed_ms_Schedule [OF tt] tt w' show ?thesis by auto
qed

text \<open>
  C7, as the claim states it, fails. The overloads that take the milliseconds as an
  \<^verbatim>\<open>int\<close> arm the timer with the delay they are given, zero included, and the
  overloads that take a duration keep only the low 32 bits of the clamped count: a
  duration of \<open>2 ^ 32\<close> milliseconds arms the timer with zero.
\<close>

theorem Schedule_no_clamp_counterexample:
  "armed_ms (the (timers (the (reactor (loop (snd (projr
      (ScheduleLater True 0 (UserCb 0 id) (start_world 3 0 :: (64 word, nat) world))))))) 1)) = 0 \<and>
   armed_ms (the (timers (the (reactor (loop (snd (projr
      (ScheduleRepeatedly True 0 (UserCb 0 id) (start_world 3 0 :: (64 word, nat) world))))))) 1)) = 0 \<and>
   clamp_ms \<lparr>count = 4294967296, num = 1, den = 1000\<rparr> = 0 \<and>
   armed_ms (the (timers (the (reactor (loop (snd (projr
      (ScheduleLater_Duration True \<lparr>count = 4294967296, num = 1, den = 1000\<rparr> (UserCb 0 id)
         (start_world 3 0 :: (64 word, nat) world))))))) 1)) = 0"
  by (simp add: ScheduleLater_Duration_def ScheduleLater_def ScheduleRepeatedly_def start_world_def new_EventLoop_def
        reactor_ScheduleLater_def reactor_ScheduleRepeatedly_def Schedule_def new_LibeventReactor_def
        armed_ms_def c_div_def c_mod_def clamp_ms_def duration_cast_milliseconds_def int64_def int32_def)


text \<open>
  C7, amended. For every duration whose count of whole milliseconds fits an
  \<^verbatim>\<open>int\<close>, the overloads of \<^verbatim>\<open>ScheduleLater\<close> and \<^verbatim>\<open>ScheduleRepeatedly\<close> that
  take a duration arm the timer with that count clamped up to 1 ms: at once on the
  loop's thread, and through the task they post from another thread, which arms the
  timer with the delay it carries. The overloads that take the milliseconds as an
  \<^verbatim>\<open>int\<close> arm the timer with the value they are given.
\<close>

theorem Schedule_clamp:
  fixes w :: "('t::len word, 'u) world"
  shows
  "(duration_cast_milliseconds d \<le> INT_MAX \<longrightarrow>
      (ScheduleLater_Duration True d cb w = Inr (tid, w') \<longrightarrow>
         (\<exists>r t. reactor (loop w') = Some r \<and> timers r tid = Some t \<and> \<not> repeat t \<and>
                armed_ms t = max 1 (duration_cast_milliseconds d) \<and> 1 \<le> armed_ms t)) \<and>
      (ScheduleRepeatedly_Duration True d cb w = Inr (tid, w') \<longrightarrow>
         (\<exists>r t. reactor (loop w') = Some r \<and> timers r tid = Some t \<and> repeat t \<and>
                armed_ms t = max 1 (duration_cast_milliseconds d) \<and> 1 \<le> armed_ms t)) \<and>
      (\<exists>w1. ScheduleLater_Duration False d cb w = Inr (timerid_generator w + 1, w1) \<and>
            tasks (loop w1) = tasks (loop w) @
              [Task (next_future w)
                 (ArmTimer (timerid_generator w + 1) (max 1 (duration_cast_milliseconds d)) cb False)]) \<and>
      (\<exists>w1. ScheduleRepeatedly_Duration False d cb w = Inr (timerid_generator w + 1, w1) \<and>
            tasks (loop w1) = tasks (loop w) @
              [Task (next_future w)
                 (ArmTimer (timerid_generator w + 1) (max 1 (duration_cast_milliseconds d)) cb True)])) \<and>
   (run_work (ArmTimer tid ms cb rep) w = Inr (v, w') \<longrightarrow>
      (\<exists>r t. reactor (loop w') = Some r \<and> timers r tid = Some t \<and> repeat t = rep \<and> armed_ms t = ms)) \<and>
   (ScheduleLater True ms cb w = Inr (tid, w') \<longrightarrow>
      (\<exists>r t. reactor (loop w') = Some r \<and> timers r tid = Some t \<and> \<not> repeat t \<and> armed_ms t = ms)) \<and>
   (ScheduleRepeatedly True ms cb w = Inr (tid, w') \<longrightarrow>
      (\<exists>r t. reactor (loop w') = Some r \<and> timers r tid = Some t \<and> repeat t \<and> armed_ms t = ms))"
proof (intro conjI impI)
  assume f: "duration_cast_milliseconds d \<le> INT_MAX"
  note c = clamp_ms_fits [OF f]
  show "\<exists>r t. reactor (loop w') = Some r \<and> timers r tid = Some t \<and> \<not> repeat t \<and>
          armed_ms t = max 1 (duration_cast_milliseconds d) \<and> 1 \<le> armed_ms t"
    if "ScheduleLater_Duration True d cb w = Inr (tid, w')"
    using ScheduleLater_True [of "clamp_ms d" cb w tid w'] that c
    by (auto simp: ScheduleLater_Duration_def)
  show "\<exists>r t. reactor (loop w') = Some r \<and> timers r tid = Some t \<and> repeat t \<and>
          armed_ms t = max 1 (duration_cast_milliseconds d) \<and> 1 \<le> armed_ms t"
    if "ScheduleRepeatedly_Duration True d cb w = Inr (tid, w')"
    using ScheduleRepeatedly_True [of "clamp_ms d" cb w tid w'] that c
    by (auto simp: ScheduleRepeatedly_Duration_def)
  show "\<exists>w1. ScheduleLater_Duration False d cb w = Inr (timerid_generator w + 1, w1) \<and>
            tasks (loop w1) = tasks (loop w) @
              [Task (next_future w)
                 (ArmTimer (timerid_generator w + 1) (max 1 (duration_cast_milliseconds d)) cb False)]"
    using c by (simp add: ScheduleLater_Duration_def ScheduleLater_False)
  show "\<exists>w1. ScheduleRepeatedly_Duration False d cb w = Inr (timerid_generator w + 1, w1) \<and>
            tasks (loop w1) = tasks (loop w) @
              [Task (next_future w)
                 (ArmTimer (timerid_generator w + 1) (max 1 (duration_cast_milliseconds d)) cb True)]"
    using c by (simp add: ScheduleRepeatedly_Duration_def ScheduleRepeatedly_False)
next
  assume "run_work (ArmTimer tid ms cb rep) w = Inr (v, w')"
  from run_work_ArmTimer [OF this]
  show "\<exists>r t. reactor (loop w') = Some r \<and> timers r tid = Some t \<and> repeat t = rep \<and> armed_ms t = ms"
    by blast
next
  assume "ScheduleLater True ms cb w = Inr (tid, w')"
  from ScheduleLater_True [OF this]
  show "\<exists>r t. reactor (loop w') = Some r \<and> timers r tid = Some t \<and> \<not> repeat t \<and> armed_ms t = ms"
    by blast
next
  assume "ScheduleRepeatedly True ms cb w = Inr (tid, w')"
  from ScheduleRepeatedly_True [OF this]
  show "\<exists>r t. reactor (loop w') = Some r \<and> timers r tid = Some t \<and> repeat t \<and> armed_ms t = ms"
    by blast
qed

lemma half_ms: "duration_cast_milliseconds \<lparr>count = 500, num = 1, den = 1000000\<rparr> = 0"
  by (simp add: duration_cast_milliseconds_def c_div_def int64_def)

lemma ScheduleLater_Duration_start:
  "ScheduleLater_Duration True \<lparr>count = 500, num = 1, den = 1000000\<rparr> (UserCb 0 id)
     (start_world 3 0 :: (64 word, nat) world) =
   Inr (1, (start_world 3 0)\<lparr>timerid_generator := 1,
             loop := (new_EventLoop 3)\<lparr>reactor :=
               Some (reactor_ScheduleLater 1 1 (UserCb 0 id) new_LibeventReactor)\<rparr>\<rparr>)"
  by (simp add: ScheduleLater_Duration_def ScheduleLater_def clamp_ms_def int32_def
        duration_cast_milliseconds_def c_div_def int64_def start_world_def new_EventLoop_def)

theorem Schedule_clamp_witness:
  "\<exists>r t. reactor (loop ((start_world 3 0 :: (64 word, nat) world)\<lparr>timerid_generator := 1,
             loop := (new_EventLoop 3)\<lparr>reactor :=
               Some (reactor_ScheduleLater 1 1 (UserCb 0 id) new_LibeventReactor)\<rparr>\<rparr>)) = Some r \<and>
      timers r 1 = Some t \<and> \<not> repeat t \<and>
      armed_ms t = max 1 (duration_cast_milliseconds \<lparr>count = 500, num = 1, den = 1000000\<rparr>) \<and>
      1 \<le> armed_ms t"
proof -
  have f: "duration_cast_milliseconds \<lparr>count = 500, num = 1, den = 1000000\<rparr> \<le> INT_MAX"
    by (simp add: duration_cast_milliseconds_def c_div_def int64_def INT_MAX_def)
  show ?thesis
    by (rule Schedule_clamp [THEN conjunct1, THEN mp, OF f, THEN conjunct1, THEN mp,
          OF ScheduleLater_Duration_start])
qed

section \<open>Idle timeout\<close>












lemma SetIdleTimeout_accepted:
  "SetIdleTimeout True 7 200 (accepted_conn consume_all) (accepted_world consume_all) =
   Inr ((accepted_conn consume_all)\<lparr>idle_timeout_ms := 200, idle_timer := 1\<rparr>,
        (accepted_world consume_all)\<lparr>timerid_generator := 1,
           loop := (new_EventLoop 3)\<lparr>objects := [1 \<mapsto> 7],
             reactor := Some (reactor_ScheduleRepeatedly 1 100 (IdleCheck 7) new_LibeventReactor)\<rparr>\<rparr>)"
  by (simp add: SetIdleTimeout_def ScheduleRepeatedly_def accepted_conn_def accepted_world_def
        new_TcpObject_def start_world_def new_EventLoop_def)





section \<open>Tasks\<close>

lemma run_tasks_append:
  "run_tasks (xs @ ys) w = (case run_tasks xs w of Inl e \<Rightarrow> Inl e | Inr w' \<Rightarrow> run_tasks ys w')"
proof (induction xs arbitrary: w)
  case Nil
  then show ?case by simp
next
  case (Cons t xs)
  obtain fut wk where t: "t = Task fut wk" by (cases t) auto
  show ?case using Cons.IH by (simp add: t split: sum.splits)
qed

lemma Unregister_reactor:
  "Unregister in_loop p ob w = Inr w' \<Longrightarrow> reactor (loop w) \<noteq> None \<Longrightarrow> reactor (loop w') \<noteq> None"
  by (auto simp: Unregister_def split: if_splits option.splits)

lemma HandleDisconnect_reactor:
  "HandleDisconnect in_loop p c w = Inr (c', w') \<Longrightarrow> reactor (loop w) \<noteq> None \<Longrightarrow>
   reactor (loop w') \<noteq> None"
  by (auto simp: HandleDisconnect_def deliver_def split: if_splits sum.splits
        dest!: Unregister_reactor)

lemma Cancel_InThisLoop_keeps:
  "reactor (loop w) \<noteq> None \<Longrightarrow> reactor (loop (snd (Cancel_InThisLoop tid w))) \<noteq> None"
  "next_future (snd (Cancel_InThisLoop tid w)) = next_future w + 1"
  "k < next_future w \<Longrightarrow> futures (snd (Cancel_InThisLoop tid w)) k = futures w k"
  "tasks (loop (snd (Cancel_InThisLoop tid w))) = tasks (loop w)"
  "delivered (snd (Cancel_InThisLoop tid w)) = delivered w"
  "user (snd (Cancel_InThisLoop tid w)) = user w"
  by (auto simp: Cancel_InThisLoop_def split: option.splits)

lemma delete_TcpObject_keeps:
  "reactor (loop w) \<noteq> None \<Longrightarrow> reactor (loop (delete_TcpObject p c w)) \<noteq> None"
  "next_future w \<le> next_future (delete_TcpObject p c w)"
  "k < next_future w \<Longrightarrow> futures (delete_TcpObject p c w) k = futures w k"
  "tasks (loop (delete_TcpObject p c w)) = tasks (loop w)"
  "delivered (delete_TcpObject p c w) = delivered w"
  "user (delete_TcpObject p c w) = user w"
proof -
  show "reactor (loop w) \<noteq> None \<Longrightarrow> reactor (loop (delete_TcpObject p c w)) \<noteq> None"
    using Cancel_InThisLoop_keeps(1) [of w "idle_timer c"]
    by (cases "idle_timer c = - 1") (simp_all add: delete_TcpObject_def Let_def)
  show "next_future w \<le> next_future (delete_TcpObject p c w)"
    by (simp add: delete_TcpObject_def Let_def Cancel_InThisLoop_keeps(2))
  show "k < next_future w \<Longrightarrow> futures (delete_TcpObject p c w) k = futures w k"
    by (simp add: delete_TcpObject_def Let_def Cancel_InThisLoop_keeps(3))
  show "tasks (loop (delete_TcpObject p c w)) = tasks (loop w)"
    by (simp add: delete_TcpObject_def Let_def Cancel_InThisLoop_keeps(4))
  show "delivered (delete_TcpObject p c w) = delivered w"
    by (simp add: delete_TcpObject_def Let_def Cancel_InThisLoop_keeps(5))
  show "user (delete_TcpObject p c w) = user w"
    by (simp add: delete_TcpObject_def Let_def Cancel_InThisLoop_keeps(6))
qed

lemma release_keeps:
  "reactor (loop w) \<noteq> None \<Longrightarrow> reactor (loop (release p c w)) \<noteq> None"
  "next_future w \<le> next_future (release p c w)"
  "k < next_future w \<Longrightarrow> futures (release p c w) k = futures w k"
  "tasks (loop (release p c w)) = tasks (loop w)"
  "delivered (release p c w) = delivered w"
  "user (release p c w) = user w"
proof -
  show "reactor (loop w) \<noteq> None \<Longrightarrow> reactor (loop (release p c w)) \<noteq> None"
    using delete_TcpObject_keeps(1) [of w p c]
    by (cases "objects (loop w) (unique_id c) = Some p \<or> p \<in> held w")
       (simp_all add: release_def del: not_None_eq)
  show "next_future w \<le> next_future (release p c w)"
    by (simp add: release_def delete_TcpObject_keeps(2))
  show "k < next_future w \<Longrightarrow> futures (release p c w) k = futures w k"
    by (simp add: release_def delete_TcpObject_keeps(3))
  show "tasks (loop (release p c w)) = tasks (loop w)"
    by (simp add: release_def delete_TcpObject_keeps(4))
  show "delivered (release p c w) = delivered w"
    by (simp add: release_def delete_TcpObject_keeps(5))
  show "user (release p c w) = user w"
    by (simp add: release_def delete_TcpObject_keeps(6))
qed

lemma run_work_reactor:
  assumes "run_work wk w = Inr (v, w')" "reactor (loop w) \<noteq> None"
  shows "reactor (loop w') \<noteq> None"
proof (cases wk)
  case (UserFn n f)
  with assms show ?thesis by (auto simp: run_work_def deliver_def)
next
  case (ArmTimer tid ms cb rep)
  with assms show ?thesis by (auto simp: run_work_def split: option.splits)
next
  case (CancelTimer tid)
  with assms show ?thesis by (auto simp: run_work_def split: option.splits)
next
  case (Destroy p)
  show ?thesis
  proof (cases "heap w p")
    case None
    with assms Destroy show ?thesis by (simp add: run_work_def)
  next
    case (Some c)
    show ?thesis
    proof (cases "state c = kConnected")
      case False
      with assms Destroy Some show ?thesis by (simp add: run_work_def)
    next
      case True
      with assms Destroy Some obtain c' w1 where
        h: "HandleDisconnect True p c w = Inr (c', w1)" and w': "w' = release p c' w1"
        by (auto simp: run_work_def split: sum.splits)
      from HandleDisconnect_reactor [OF h assms(2)] have "reactor (loop w1) \<noteq> None" .
      then show ?thesis unfolding w' by (rule release_keeps(1))
    qed
  qed
qed

lemma run_tasks_reactor:
  "run_tasks ts w = Inr w' \<Longrightarrow> reactor (loop w) \<noteq> None \<Longrightarrow> reactor (loop w') \<noteq> None"
proof (induction ts arbitrary: w)
  case Nil
  then show ?case by simp
next
  case (Cons t ts)
  obtain fut wk where t: "t = Task fut wk" by (cases t) auto
  from Cons.prems t obtain v w1 where
    r: "run_work wk w = Inr (v, w1)" and
    s: "run_tasks ts (w1\<lparr>futures := (futures w1)(fut \<mapsto> v)\<rparr>) = Inr w'"
    by (auto split: sum.splits)
  from run_work_reactor [OF r Cons.prems(2)]
  have "reactor (loop (w1\<lparr>futures := (futures w1)(fut \<mapsto> v)\<rparr>)) \<noteq> None" by simp
  from Cons.IH [OF s this] show ?case .
qed

lemma Execute_True_UserFn:
  "Execute True (UserFn n f) w =
     Inr (next_future w,
          w\<lparr>next_future := next_future w + 1,
            user := snd (f (user w)),
            delivered := delivered w @ [Ran n],
            futures := (futures w)(next_future w \<mapsto> fst (f (user w)))\<rparr>)"
  by (simp add: Execute_def run_work_def deliver_def)

lemma drain_after_Execute:
  assumes "Execute False (UserFn n f) w = Inr (fut, w1)"
  shows "drain True w1 =
     (case run_tasks (tasks (loop w)) (w1\<lparr>loop := (loop w1)\<lparr>tasks := []\<rparr>\<rparr>) of
        Inl e \<Rightarrow> Inl e
      | Inr wa \<Rightarrow>
          Inr (wa\<lparr>user := snd (f (user wa)),
                  delivered := delivered wa @ [Ran n],
                  futures := (futures wa)(fut \<mapsto> fst (f (user wa)))\<rparr>))"
proof -
  from assms have f: "fut = next_future w" and
    t: "tasks (loop w1) = tasks (loop w) @ [Task fut (UserFn n f)]"
    by (auto simp: Execute_def)
  show ?thesis
    by (simp add: drain_def t run_tasks_append run_work_def deliver_def split: sum.splits)
qed

lemma Unregister_keeps:
  "Unregister in_loop p ob w = Inr w' \<Longrightarrow>
   futures w' = futures w \<and> delivered w' = delivered w \<and> user w' = user w \<and> heap w' = heap w \<and>
   tasks (loop w') = tasks (loop w) \<and> next_future w' = next_future w"
  by (auto simp: Unregister_def split: if_splits option.splits)

lemma HandleDisconnect_keeps:
  assumes "HandleDisconnect in_loop p c w = Inr (c', w')"
  shows "futures w' = futures w \<and> user w' = user w \<and> heap w' = heap w \<and>
         tasks (loop w') = tasks (loop w) \<and> next_future w' = next_future w \<and>
         delivered w' = delivered w @ (if on_disconnect c then [OnDisconnect p] else [])"
proof -
  from assms obtain w1 where
    u: "Unregister in_loop (Some p) (c\<lparr>state := kDisconnected\<rparr>)
          (if on_disconnect c then deliver (OnDisconnect p) w else w) = Inr w'"
    by (auto simp: HandleDisconnect_def split: if_splits sum.splits)
  from Unregister_keeps [OF u] show ?thesis by (auto simp: deliver_def)
qed

lemma ActiveClose_True_keeps:
  assumes "ActiveClose True sync p c w = Inr (c', w')"
  shows "futures w' = futures w \<and> user w' = user w \<and> heap w' = heap w \<and>
         tasks (loop w') = tasks (loop w) \<and> next_future w' = next_future w \<and>
         (\<exists>ds. delivered w' = delivered w @ ds)"
proof (cases "state c = kConnected")
  case True
  with assms have "HandleDisconnect True p c w = Inr (c', w')" by (simp add: ActiveClose_def)
  from HandleDisconnect_keeps [OF this] show ?thesis by auto
next
  case False
  with assms show ?thesis by (simp add: ActiveClose_def)
qed

lemma run_callback_keeps:
  assumes "run_callback now cb w = Inr w'"
  shows "(\<forall>k<next_future w. futures w' k = futures w k) \<and> next_future w \<le> next_future w' \<and>
         tasks (loop w') = tasks (loop w) \<and> (\<exists>ds. delivered w' = delivered w @ ds)"
proof (cases cb)
  case (UserCb n f)
  with assms show ?thesis by (auto simp: run_callback_def deliver_def)
next
  case (IdleCheck p)
  show ?thesis
  proof (cases "heap w p")
    case None
    with assms IdleCheck show ?thesis by (simp add: run_callback_def)
  next
    case (Some c)
    show ?thesis
    proof (cases "fst (CheckIdleTimeout now c w)")
      case False
      with assms IdleCheck Some show ?thesis
        by (auto simp: run_callback_def CheckIdleTimeout_def log_warn_def split: if_splits)
    next
      case True
      then have s: "snd (CheckIdleTimeout now c w) = log_warn ''TcpObject::Timeout'' w"
        by (auto simp: CheckIdleTimeout_def split: if_splits)
      from assms IdleCheck Some True s obtain c' w1 where
        a: "ActiveClose True False p c (log_warn ''TcpObject::Timeout'' w) = Inr (c', w1)" and
        w': "w' = release p c' w1"
        by (auto simp: run_callback_def split: sum.splits)
      from ActiveClose_True_keeps [OF a]
      have k: "futures w1 = futures w" "tasks (loop w1) = tasks (loop w)"
        "next_future w1 = next_future w" and d: "\<exists>ds. delivered w1 = delivered w @ ds"
        by (auto simp: log_warn_def)
      from d obtain ds where ds: "delivered w1 = delivered w @ ds" by auto
      have "\<forall>k<next_future w. futures w' k = futures w k"
        using release_keeps(3) [of _ w1 p c'] k by (simp add: w')
      moreover have "next_future w \<le> next_future w'"
        using release_keeps(2) [of w1 p c'] k by (simp add: w')
      moreover have "tasks (loop w') = tasks (loop w)"
        using k by (simp add: w' release_keeps(4))
      moreover have "\<exists>ds. delivered w' = delivered w @ ds"
        using ds by (simp add: w' release_keeps(5))
      ultimately show ?thesis by simp
    qed
  qed
qed

lemma TimerCallback_keeps:
  assumes "TimerCallback now tid w = Inr w'"
  shows "(\<forall>k<next_future w. futures w' k = futures w k) \<and> next_future w \<le> next_future w' \<and>
         tasks (loop w') = tasks (loop w) \<and> (\<exists>ds. delivered w' = delivered w @ ds)"
proof (cases "reactor (loop w)")
  case None
  with assms show ?thesis by (simp add: TimerCallback_def)
next
  case (Some r)
  show ?thesis
  proof (cases "timers r tid")
    case None
    with assms Some show ?thesis by (simp add: TimerCallback_def)
  next
    case (Some t)
    from assms \<open>reactor (loop w) = Some r\<close> Some obtain w1 where
      c: "run_callback now (callback t) w = Inr w1" and
      w': "w' = w1 \<or> (\<exists>r'. w' = w1\<lparr>loop := (loop w1)\<lparr>reactor := Some r'\<rparr>\<rparr>)"
      by (auto simp: TimerCallback_def split: sum.splits if_splits option.splits)
    from run_callback_keeps [OF c] w' show ?thesis by auto
  qed
qed

lemma fire_keeps:
  "fire now tids w = Inr w' \<Longrightarrow>
   (\<forall>k<next_future w. futures w' k = futures w k) \<and> next_future w \<le> next_future w' \<and>
   tasks (loop w') = tasks (loop w) \<and> (\<exists>ds. delivered w' = delivered w @ ds)"
proof (induction tids arbitrary: w)
  case Nil
  then show ?case by simp
next
  case (Cons tid tids)
  from Cons.prems obtain w1 where
    t: "TimerCallback now tid w = Inr w1" and f: "fire now tids w1 = Inr w'"
    by (auto split: sum.splits)
  from TimerCallback_keeps [OF t] Cons.IH [OF f] show ?case by fastforce
qed

lemma Poll_keeps:
  "Poll now expired poll_ok w = Inr (ok, w') \<Longrightarrow>
   (\<forall>k<next_future w. futures w' k = futures w k) \<and> next_future w \<le> next_future w' \<and>
   tasks (loop w') = tasks (loop w) \<and> (\<exists>ds. delivered w' = delivered w @ ds)"
  by (auto simp: Poll_def split: sum.splits dest: fire_keeps)

lemma run_work_next_future:
  assumes "run_work wk w = Inr (v, w')"
  shows "next_future w \<le> next_future w'"
proof (cases wk)
  case (UserFn n f)
  with assms show ?thesis by (auto simp: run_work_def deliver_def)
next
  case (ArmTimer tid ms cb rep)
  with assms show ?thesis by (auto simp: run_work_def split: option.splits)
next
  case (CancelTimer tid)
  with assms show ?thesis by (auto simp: run_work_def split: option.splits)
next
  case (Destroy p)
  show ?thesis
  proof (cases "heap w p")
    case None
    with assms Destroy show ?thesis by (simp add: run_work_def)
  next
    case (Some c)
    show ?thesis
    proof (cases "state c = kConnected")
      case False
      with assms Destroy Some show ?thesis by (simp add: run_work_def)
    next
      case True
      with assms Destroy Some obtain c' w1 where
        h: "HandleDisconnect True p c w = Inr (c', w1)" and w': "w' = release p c' w1"
        by (auto simp: run_work_def split: sum.splits)
      from HandleDisconnect_keeps [OF h] have "next_future w1 = next_future w" by simp
      with release_keeps(2) [of w1 p c'] w' show ?thesis by simp
    qed
  qed
qed

lemma run_tasks_next_future:
  "run_tasks ts w = Inr w' \<Longrightarrow> next_future w \<le> next_future w'"
proof (induction ts arbitrary: w)
  case Nil
  then show ?case by simp
next
  case (Cons t ts)
  obtain fut wk where t: "t = Task fut wk" by (cases t) auto
  from Cons.prems t obtain v w1 where
    r: "run_work wk w = Inr (v, w1)" and
    s: "run_tasks ts (w1\<lparr>futures := (futures w1)(fut \<mapsto> v)\<rparr>) = Inr w'"
    by (auto split: sum.splits)
  from run_work_next_future [OF r] Cons.IH [OF s] show ?case by simp
qed

lemma Run_iteration_after_Execute:
  assumes e: "Execute False (UserFn n f) w = Inr (fut, w1)"
    and r: "Run_iteration True now expired poll_ok w1 = Inr w3"
  shows "\<exists>wa ds. run_tasks (tasks (loop w)) (w1\<lparr>loop := (loop w1)\<lparr>tasks := []\<rparr>\<rparr>) = Inr wa \<and>
           futures w3 fut = Some (fst (f (user wa))) \<and>
           delivered w3 = delivered wa @ [Ran n] @ ds"
proof -
  from r obtain w2 ok wp where
    d: "drain True w1 = Inr w2" and p: "Poll now expired poll_ok w2 = Inr (ok, wp)" and
    w3: "w3 = (if ok then wp else log_error ''Reactor poll failed'' wp)"
    by (auto simp: Run_iteration_def split: sum.splits)
  from d drain_after_Execute [OF e] obtain wa where
    a: "run_tasks (tasks (loop w)) (w1\<lparr>loop := (loop w1)\<lparr>tasks := []\<rparr>\<rparr>) = Inr wa" and
    w2: "w2 = wa\<lparr>user := snd (f (user wa)), delivered := delivered wa @ [Ran n],
                 futures := (futures wa)(fut \<mapsto> fst (f (user wa)))\<rparr>"
    by (auto split: sum.splits)
  from e have f: "fut = next_future w" "next_future w1 = next_future w + 1"
    by (auto simp: Execute_def)
  from run_tasks_next_future [OF a] f have "fut < next_future w2" by (simp add: w2)
  with Poll_keeps [OF p] have "futures wp fut = futures w2 fut" by simp
  with Poll_keeps [OF p] w2 w3 a show ?thesis by (auto simp: log_error_def)
qed

text \<open>
  C3. For every closure \<open>f\<close>, \<^verbatim>\<open>Execute\<close> on the loop's thread runs \<open>f\<close> before it
  returns, and the future it returns is fulfilled with the result of \<open>f\<close>. From another
  thread it does not run \<open>f\<close>: it appends the task to the inbox, writes to the notifier
  and returns a future that is not touched. When the loop then takes the lock, the tasks
  submitted earlier run first and in their order, then \<open>f\<close> runs and fulfils the future
  with its result, and only then does the reactor poll; when the lock is not taken the
  inbox waits.
\<close>

theorem Execute_contract:
  fixes w :: "('t::len word, 'u) world"
  shows
  "Execute True (UserFn n f) w =
     Inr (next_future w,
          w\<lparr>next_future := next_future w + 1,
            user := snd (f (user w)),
            delivered := delivered w @ [Ran n],
            futures := (futures w)(next_future w \<mapsto> fst (f (user w)))\<rparr>) \<and>
   Execute False (UserFn n f) w =
     Inr (next_future w,
          w\<lparr>next_future := next_future w + 1,
            loop := (loop w)\<lparr>tasks := tasks (loop w) @ [Task (next_future w) (UserFn n f)],
                             notifier := Notify (notifier (loop w))\<rparr>\<rparr>) \<and>
   run_tasks (xs @ ys) w = (case run_tasks xs w of Inl e \<Rightarrow> Inl e | Inr w' \<Rightarrow> run_tasks ys w') \<and>
   (Execute False (UserFn n f) w = Inr (fut, w1) \<longrightarrow>
      drain False w1 = Inr w1 \<and>
      drain True w1 =
        (case run_tasks (tasks (loop w)) (w1\<lparr>loop := (loop w1)\<lparr>tasks := []\<rparr>\<rparr>) of
           Inl e \<Rightarrow> Inl e
         | Inr wa \<Rightarrow>
             Inr (wa\<lparr>user := snd (f (user wa)),
                     delivered := delivered wa @ [Ran n],
                     futures := (futures wa)(fut \<mapsto> fst (f (user wa)))\<rparr>)) \<and>
      (Run_iteration True now expired poll_ok w1 = Inr w3 \<longrightarrow>
         (\<exists>wa ds. run_tasks (tasks (loop w)) (w1\<lparr>loop := (loop w1)\<lparr>tasks := []\<rparr>\<rparr>) = Inr wa \<and>
                  futures w3 fut = Some (fst (f (user wa))) \<and>
                  delivered w3 = delivered wa @ [Ran n] @ ds)))"
proof (intro conjI impI)
  show "Execute True (UserFn n f) w =
     Inr (next_future w,
          w\<lparr>next_future := next_future w + 1,
            user := snd (f (user w)),
            delivered := delivered w @ [Ran n],
            futures := (futures w)(next_future w \<mapsto> fst (f (user w)))\<rparr>)"
    by (rule Execute_True_UserFn)
  show "Execute False (UserFn n f) w =
     Inr (next_future w,
          w\<lparr>next_future := next_future w + 1,
            loop := (loop w)\<lparr>tasks := tasks (loop w) @ [Task (next_future w) (UserFn n f)],
                             notifier := Notify (notifier (loop w))\<rparr>\<rparr>)"
    by (rule Execute_False)
  show "run_tasks (xs @ ys) w = (case run_tasks xs w of Inl e \<Rightarrow> Inl e | Inr w' \<Rightarrow> run_tasks ys w')"
    by (rule run_tasks_append)
next
  assume e: "Execute False (UserFn n f) w = Inr (fut, w1)"
  show "drain False w1 = Inr w1" by (simp add: drain_def)
  show "drain True w1 =
        (case run_tasks (tasks (loop w)) (w1\<lparr>loop := (loop w1)\<lparr>tasks := []\<rparr>\<rparr>) of
           Inl e \<Rightarrow> Inl e
         | Inr wa \<Rightarrow>
             Inr (wa\<lparr>user := snd (f (user wa)),
                     delivered := delivered wa @ [Ran n],
                     futures := (futures wa)(fut \<mapsto> fst (f (user wa)))\<rparr>))"
    by (rule drain_after_Execute [OF e])
  show "\<exists>wa ds. run_tasks (tasks (loop w)) (w1\<lparr>loop := (loop w1)\<lparr>tasks := []\<rparr>\<rparr>) = Inr wa \<and>
                  futures w3 fut = Some (fst (f (user wa))) \<and>
                  delivered w3 = delivered wa @ [Ran n] @ ds"
    if "Run_iteration True now expired poll_ok w1 = Inr w3"
    by (rule Run_iteration_after_Execute [OF e that])
qed

lemma Execute_twice:
  "Execute False (UserFn 2 (\<lambda>u. (VInt (int u), u)))
     ((start_world 3 0 :: (64 word, nat) world)\<lparr>next_future := 1,
        loop := (new_EventLoop 3)\<lparr>tasks := [Task 0 (UserFn 1 (\<lambda>u. (VVoid, u + 41)))],
                  notifier := Notify (new_PipeObject 3)\<rparr>\<rparr>) =
   Inr (1, (start_world 3 0)\<lparr>next_future := 2,
        loop := (new_EventLoop 3)\<lparr>tasks := [Task 0 (UserFn 1 (\<lambda>u. (VVoid, u + 41))),
                                           Task 1 (UserFn 2 (\<lambda>u. (VInt (int u), u)))],
                  notifier := Notify (Notify (new_PipeObject 3))\<rparr>\<rparr>)"
  by (simp add: Execute_def start_world_def new_EventLoop_def)

lemma Run_iteration_twice:
  "Run_iteration True 0 [] True ((start_world 3 0 :: (64 word, nat) world)\<lparr>next_future := 2,
        loop := (new_EventLoop 3)\<lparr>tasks := [Task 0 (UserFn 1 (\<lambda>u. (VVoid, u + 41))),
                                           Task 1 (UserFn 2 (\<lambda>u. (VInt (int u), u)))],
                  notifier := Notify (Notify (new_PipeObject 3))\<rparr>\<rparr>) =
   Inr ((start_world 3 0)\<lparr>next_future := 2,
        loop := (new_EventLoop 3)\<lparr>tasks := [], notifier := Notify (Notify (new_PipeObject 3))\<rparr>,
        user := 41, delivered := [Ran 1, Ran 2],
        futures := [0 \<mapsto> VVoid, 1 \<mapsto> VInt 41]\<rparr>)"
  by (simp add: Run_iteration_def drain_def Poll_def run_work_def deliver_def start_world_def
        new_EventLoop_def)

theorem Execute_contract_witness:
  "drain True ((start_world 3 0 :: (64 word, nat) world)\<lparr>next_future := 2,
        loop := (new_EventLoop 3)\<lparr>tasks := [Task 0 (UserFn 1 (\<lambda>u. (VVoid, u + 41))),
                                           Task 1 (UserFn 2 (\<lambda>u. (VInt (int u), u)))],
                  notifier := Notify (Notify (new_PipeObject 3))\<rparr>\<rparr>) =
   Inr ((start_world 3 0)\<lparr>next_future := 2,
        loop := (new_EventLoop 3)\<lparr>tasks := [], notifier := Notify (Notify (new_PipeObject 3))\<rparr>,
        user := 41, delivered := [Ran 1, Ran 2],
        futures := [0 \<mapsto> VVoid, 1 \<mapsto> VInt 41]\<rparr>) \<and>
   (\<exists>wa ds.
      run_tasks [Task 0 (UserFn 1 (\<lambda>u. (VVoid, u + 41)))]
        ((start_world 3 0 :: (64 word, nat) world)\<lparr>next_future := 2,
           loop := (new_EventLoop 3)\<lparr>tasks := [],
                     notifier := Notify (Notify (new_PipeObject 3))\<rparr>\<rparr>) = Inr wa \<and>
      futures ((start_world 3 0 :: (64 word, nat) world)\<lparr>next_future := 2,
        loop := (new_EventLoop 3)\<lparr>tasks := [], notifier := Notify (Notify (new_PipeObject 3))\<rparr>,
        user := 41, delivered := [Ran 1, Ran 2],
        futures := [0 \<mapsto> VVoid, 1 \<mapsto> VInt 41]\<rparr>) 1 = Some (fst (VInt (int (user wa)), user wa)) \<and>
      delivered ((start_world 3 0 :: (64 word, nat) world)\<lparr>next_future := 2,
        loop := (new_EventLoop 3)\<lparr>tasks := [], notifier := Notify (Notify (new_PipeObject 3))\<rparr>,
        user := 41, delivered := [Ran 1, Ran 2],
        futures := [0 \<mapsto> VVoid, 1 \<mapsto> VInt 41]\<rparr>) = delivered wa @ [Ran 2] @ ds)"
proof -
  note a = Execute_contract [THEN conjunct2, THEN conjunct2, THEN conjunct2, THEN mp,
      OF Execute_twice, THEN conjunct2, THEN conjunct1]
  note b = Execute_contract [THEN conjunct2, THEN conjunct2, THEN conjunct2, THEN mp,
      OF Execute_twice, THEN conjunct2, THEN conjunct2, THEN mp, OF Run_iteration_twice]
  have a': "drain True ((start_world 3 0 :: (64 word, nat) world)\<lparr>next_future := 2,
        loop := (new_EventLoop 3)\<lparr>tasks := [Task 0 (UserFn 1 (\<lambda>u. (VVoid, u + 41))),
                                           Task 1 (UserFn 2 (\<lambda>u. (VInt (int u), u)))],
                  notifier := Notify (Notify (new_PipeObject 3))\<rparr>\<rparr>) =
   Inr ((start_world 3 0)\<lparr>next_future := 2,
        loop := (new_EventLoop 3)\<lparr>tasks := [], notifier := Notify (Notify (new_PipeObject 3))\<rparr>,
        user := 41, delivered := [Ran 1, Ran 2],
        futures := [0 \<mapsto> VVoid, 1 \<mapsto> VInt 41]\<rparr>)"
    unfolding a
    by (simp add: run_work_def deliver_def start_world_def new_EventLoop_def)
  have b': "\<exists>wa ds.
      run_tasks [Task 0 (UserFn 1 (\<lambda>u. (VVoid, u + 41)))]
        ((start_world 3 0 :: (64 word, nat) world)\<lparr>next_future := 2,
           loop := (new_EventLoop 3)\<lparr>tasks := [],
                     notifier := Notify (Notify (new_PipeObject 3))\<rparr>\<rparr>) = Inr wa \<and>
      futures ((start_world 3 0 :: (64 word, nat) world)\<lparr>next_future := 2,
        loop := (new_EventLoop 3)\<lparr>tasks := [], notifier := Notify (Notify (new_PipeObject 3))\<rparr>,
        user := 41, delivered := [Ran 1, Ran 2],
        futures := [0 \<mapsto> VVoid, 1 \<mapsto> VInt 41]\<rparr>) 1 = Some (fst (VInt (int (user wa)), user wa)) \<and>
      delivered ((start_world 3 0 :: (64 word, nat) world)\<lparr>next_future := 2,
        loop := (new_EventLoop 3)\<lparr>tasks := [], notifier := Notify (Notify (new_PipeObject 3))\<rparr>,
        user := 41, delivered := [Ran 1, Ran 2],
        futures := [0 \<mapsto> VVoid, 1 \<mapsto> VInt 41]\<rparr>) = delivered wa @ [Ran 2] @ ds"
    using b by (simp add: start_world_def new_EventLoop_def)
  show ?thesis by (rule conjI a' b')+
qed

section \<open>Cancelling a timer that is not armed yet\<close>

lemma Cancel_False:
  "Cancel False tid w =
     Inr (next_future w,
          w\<lparr>next_future := next_future w + 1,
            loop := (loop w)\<lparr>tasks := tasks (loop w) @ [Task (next_future w) (CancelTimer tid)],
                             notifier := Notify (notifier (loop w))\<rparr>\<rparr>)"
  by (simp add: Cancel_def Execute_False)

lemma arm_then_cancel:
  "run_tasks [Task a (ArmTimer tid ms cb False), Task b (CancelTimer tid)] w =
     (case reactor (loop w) of
        None \<Rightarrow> Inl NullDeref
      | Some r \<Rightarrow>
          Inr (w\<lparr>loop := (loop w)\<lparr>reactor := Some (r\<lparr>timers := (timers r)(tid := None)\<rparr>)\<rparr>,
                 futures := (futures w)(a \<mapsto> VVoid, b \<mapsto> VBool True)\<rparr>))"
  by (simp add: run_work_def reactor_ScheduleLater_def Schedule_def reactor_Cancel_def
        split: option.splits)

lemma drain_arm_cancel:
  assumes s: "ScheduleLater False ms cb w = Inr (tid, w1)"
    and c: "Cancel False tid w1 = Inr (fut, w2)"
  shows "drain True w2 =
     (case run_tasks (tasks (loop w)) (w2\<lparr>loop := (loop w2)\<lparr>tasks := []\<rparr>\<rparr>) of
        Inl e \<Rightarrow> Inl e
      | Inr wa \<Rightarrow>
          (case reactor (loop wa) of
             None \<Rightarrow> Inl NullDeref
           | Some r \<Rightarrow>
               Inr (wa\<lparr>loop := (loop wa)\<lparr>reactor := Some (r\<lparr>timers := (timers r)(tid := None)\<rparr>)\<rparr>,
                       futures := (futures wa)(next_future w \<mapsto> VVoid, fut \<mapsto> VBool True)\<rparr>)))"
proof -
  from s have t1: "tasks (loop w1) = tasks (loop w) @ [Task (next_future w) (ArmTimer tid ms cb False)]"
    and n1: "next_future w1 = next_future w + 1"
    by (auto simp: ScheduleLater_False)
  from c have t2: "tasks (loop w2) = tasks (loop w1) @ [Task fut (CancelTimer tid)]"
    and f: "fut = next_future w1"
    by (auto simp: Cancel_False)
  have t: "tasks (loop w2) =
             tasks (loop w) @ [Task (next_future w) (ArmTimer tid ms cb False), Task fut (CancelTimer tid)]"
    by (simp add: t1 t2)
  show ?thesis
    by (simp add: drain_def t run_tasks_append arm_then_cancel del: run_tasks.simps
          split: sum.splits)
qed

text \<open>
  C4. \<^verbatim>\<open>ScheduleLater\<close> called from another thread than the loop's, then
  \<^verbatim>\<open>Cancel\<close> of the id it returned from that thread, then a drain of the inbox by a
  loop that has its reactor. Once the tasks that were in the inbox before have run, the
  arming runs and then the cancellation, which finds the timer: the drain returns, the
  cancel future holds true, the reactor has no timer under the id, nothing was delivered
  and the user's state was not touched meanwhile, and a later expiry of the id runs
  nothing. When an earlier task fails, the drain fails with it.
\<close>

theorem cancel_before_drain:
  fixes w :: "('t::len word, 'u) world"
  assumes "reactor (loop w) \<noteq> None"
    and "ScheduleLater False ms cb w = Inr (tid, w1)"
    and "Cancel False tid w1 = Inr (fut, w2)"
  shows
  "(\<forall>wa. run_tasks (tasks (loop w)) (w2\<lparr>loop := (loop w2)\<lparr>tasks := []\<rparr>\<rparr>) = Inr wa \<longrightarrow>
      (\<exists>w3 r. drain True w2 = Inr w3 \<and> futures w3 fut = Some (VBool True) \<and>
              reactor (loop w3) = Some r \<and> timers r tid = None \<and>
              delivered w3 = delivered wa \<and> user w3 = user wa \<and>
              (\<forall>now. TimerCallback now tid w3 = Inr w3))) \<and>
   (\<forall>e. run_tasks (tasks (loop w)) (w2\<lparr>loop := (loop w2)\<lparr>tasks := []\<rparr>\<rparr>) = Inl e \<longrightarrow>
      drain True w2 = Inl e)"
proof (intro conjI allI impI)
  fix wa
  assume a: "run_tasks (tasks (loop w)) (w2\<lparr>loop := (loop w2)\<lparr>tasks := []\<rparr>\<rparr>) = Inr wa"
  have "reactor (loop (w2\<lparr>loop := (loop w2)\<lparr>tasks := []\<rparr>\<rparr>)) \<noteq> None"
    using assms by (auto simp: ScheduleLater_False Cancel_False)
  from run_tasks_reactor [OF a this] obtain r where r: "reactor (loop wa) = Some r" by auto
  let ?w3 = "wa\<lparr>loop := (loop wa)\<lparr>reactor := Some (r\<lparr>timers := (timers r)(tid := None)\<rparr>)\<rparr>,
                futures := (futures wa)(next_future w \<mapsto> VVoid, fut \<mapsto> VBool True)\<rparr>"
  have d: "drain True w2 = Inr ?w3"
    by (simp add: drain_arm_cancel [OF assms(2,3)] a r)
  have "\<forall>now. TimerCallback now tid ?w3 = Inr ?w3"
    by (simp add: TimerCallback_def)
  with d show "\<exists>w3 r. drain True w2 = Inr w3 \<and> futures w3 fut = Some (VBool True) \<and>
              reactor (loop w3) = Some r \<and> timers r tid = None \<and>
              delivered w3 = delivered wa \<and> user w3 = user wa \<and>
              (\<forall>now. TimerCallback now tid w3 = Inr w3)"
    by (intro exI [of _ ?w3] exI [of _ "r\<lparr>timers := (timers r)(tid := None)\<rparr>"]) simp
next
  fix e
  assume "run_tasks (tasks (loop w)) (w2\<lparr>loop := (loop w2)\<lparr>tasks := []\<rparr>\<rparr>) = Inl e"
  then show "drain True w2 = Inl e"
    by (simp add: drain_arm_cancel [OF assms(2,3)])
qed

lemma ScheduleLater_start:
  "ScheduleLater False 50 (UserCb 5 Suc) (start_world 3 0 :: (64 word, nat) world) =
   Inr (1, (start_world 3 0)\<lparr>timerid_generator := 1, next_future := 1,
          loop := (new_EventLoop 3)\<lparr>tasks := [Task 0 (ArmTimer 1 50 (UserCb 5 Suc) False)],
                    notifier := Notify (new_PipeObject 3)\<rparr>\<rparr>)"
  by (simp add: ScheduleLater_False start_world_def new_EventLoop_def)

lemma Cancel_start:
  "Cancel False 1 ((start_world 3 0 :: (64 word, nat) world)\<lparr>timerid_generator := 1, next_future := 1,
          loop := (new_EventLoop 3)\<lparr>tasks := [Task 0 (ArmTimer 1 50 (UserCb 5 Suc) False)],
                    notifier := Notify (new_PipeObject 3)\<rparr>\<rparr>) =
   Inr (1, (start_world 3 0)\<lparr>timerid_generator := 1, next_future := 2,
          loop := (new_EventLoop 3)\<lparr>tasks := [Task 0 (ArmTimer 1 50 (UserCb 5 Suc) False),
                                             Task 1 (CancelTimer 1)],
                    notifier := Notify (Notify (new_PipeObject 3))\<rparr>\<rparr>)"
  by (simp add: Cancel_False start_world_def new_EventLoop_def)

theorem cancel_before_drain_witness:
  "\<exists>w3 r. drain True ((start_world 3 0 :: (64 word, nat) world)\<lparr>timerid_generator := 1, next_future := 2,
          loop := (new_EventLoop 3)\<lparr>tasks := [Task 0 (ArmTimer 1 50 (UserCb 5 Suc) False),
                                             Task 1 (CancelTimer 1)],
                    notifier := Notify (Notify (new_PipeObject 3))\<rparr>\<rparr>) = Inr w3 \<and>
      futures w3 1 = Some (VBool True) \<and> reactor (loop w3) = Some r \<and> timers r 1 = None \<and>
      delivered w3 = [] \<and> user w3 = 0 \<and> (\<forall>now. TimerCallback now 1 w3 = Inr w3)"
proof -
  let ?w = "start_world 3 0 :: (64 word, nat) world"
  let ?w2 = "?w\<lparr>timerid_generator := 1, next_future := 2,
          loop := (new_EventLoop 3)\<lparr>tasks := [Task 0 (ArmTimer 1 50 (UserCb 5 Suc) False),
                                             Task 1 (CancelTimer 1)],
                    notifier := Notify (Notify (new_PipeObject 3))\<rparr>\<rparr>"
  have r: "reactor (loop ?w) \<noteq> None" by (simp add: start_world_def new_EventLoop_def)
  have p: "run_tasks (tasks (loop ?w)) (?w2\<lparr>loop := (loop ?w2)\<lparr>tasks := []\<rparr>\<rparr>)
             = Inr (?w2\<lparr>loop := (loop ?w2)\<lparr>tasks := []\<rparr>\<rparr>)"
    by (simp add: start_world_def new_EventLoop_def)
  note a = cancel_before_drain [OF r ScheduleLater_start Cancel_start, THEN conjunct1, THEN spec,
      THEN mp, OF p]
  then show ?thesis by (simp add: start_world_def)
qed

section \<open>Receiving\<close>

lemma consumed_values_append:
  "consumed_values (xs @ ys) = consumed_values xs @ consumed_values ys"
  by (induction xs rule: consumed_values.induct) auto

lemma consume_Some:
  "consume (Some g) p start len total_consumed w =
     (if total_consumed < len
      then (let view = take (nat (len - total_consumed)) (drop (nat total_consumed) start);
                consumed = fst (g (user w) view);
                w' = deliver (OnMessage p view consumed) (w\<lparr>user := snd (g (user w) view)\<rparr>)
            in if consumed > 0
               then (if total_consumed + consumed > INT_MAX then Inl SignedOverflow
                     else consume (Some g) p start len (total_consumed + consumed) w')
               else Inr (total_consumed, consumed < 0, w'))
      else Inr (total_consumed, False, w))"
  by (subst consume.simps) simp

lemma consume_props:
  "consume f p start len total_consumed w = Inr (t, err, w') \<Longrightarrow>
   \<exists>ms. delivered w' = delivered w @ ms \<and> advancing p start len total_consumed ms \<and>
        (\<forall>n\<in>set (butlast (consumed_values ms)). 0 < n) \<and>
        t = total_consumed + sum_list (filter (\<lambda>n. 0 < n) (consumed_values ms)) \<and>
        (err \<longleftrightarrow> consumed_values ms \<noteq> [] \<and> last (consumed_values ms) < 0) \<and>
        loop w' = loop w \<and> heap w' = heap w \<and> futures w' = futures w \<and> logged w' = logged w \<and>
        ((consumed_values ms \<noteq> [] \<and> last (consumed_values ms) \<le> 0) \<or> len \<le> t) \<and>
        (\<forall>g. f = Some g \<longrightarrow> answers g (user w) ms = Some (user w'))"
proof (induction f p start len total_consumed w rule: consume.induct)
  case (1 f p start len total_consumed w)
  show ?case
  proof (cases "total_consumed < len")
    case False
    with "1.prems" have "t = total_consumed" "\<not> err" "w' = w"
      by (simp_all add: consume.simps)
    then show ?thesis using False by (intro exI [of _ "[]"]) simp
  next
    case True
    from "1.prems" True obtain g where g: "f = Some g"
      by (cases f) (auto simp: consume.simps)
    define view where "view = take (nat (len - total_consumed)) (drop (nat total_consumed) start)"
    define consumed where "consumed = fst (g (user w) view)"
    define w1 where "w1 = deliver (OnMessage p view consumed) (w\<lparr>user := snd (g (user w) view)\<rparr>)"
    have u1: "user w1 = snd (g (user w) view)" by (simp add: w1_def deliver_def)
    show ?thesis
    proof (cases "consumed > 0")
      case False
      with "1.prems" True g have r: "t = total_consumed" "err = (consumed < 0)" "w' = w1"
        by (auto simp: consume_Some [of g p start len total_consumed w] Let_def view_def
              consumed_def w1_def)
      show ?thesis
        using r False True g u1
        by (intro exI [of _ "[OnMessage p view consumed]"])
           (auto simp: w1_def deliver_def view_def consumed_def)
    next
      case pos: True
      with "1.prems" True g have no: "\<not> total_consumed + consumed > INT_MAX"
        and rec: "consume f p start len (total_consumed + consumed) w1 = Inr (t, err, w')"
        by (auto simp: consume_Some [of g p start len total_consumed w] Let_def view_def
              consumed_def w1_def split: if_splits)
      from "1.IH" [OF True g view_def consumed_def w1_def pos no rec]
      obtain ms where ms: "delivered w' = delivered w1 @ ms"
        "advancing p start len (total_consumed + consumed) ms"
        "\<forall>n\<in>set (butlast (consumed_values ms)). 0 < n"
        "t = total_consumed + consumed + sum_list (filter (\<lambda>n. 0 < n) (consumed_values ms))"
        "err \<longleftrightarrow> consumed_values ms \<noteq> [] \<and> last (consumed_values ms) < 0"
        "loop w' = loop w1" "heap w' = heap w1" "futures w' = futures w1" "logged w' = logged w1"
        "(consumed_values ms \<noteq> [] \<and> last (consumed_values ms) \<le> 0) \<or> len \<le> t"
        "answers g (user w1) ms = Some (user w')"
        using g by auto
      show ?thesis
        using ms pos True g u1
        by (intro exI [of _ "OnMessage p view consumed # ms"])
           (auto simp: w1_def deliver_def view_def consumed_def dest: in_set_butlastD)
    qed
  qed
qed
















section \<open>Terminal states\<close>

lemma advancing_messages:
  "advancing p start len total_consumed ms \<Longrightarrow> \<forall>d\<in>set ms. \<exists>v n. d = OnMessage p v n"
  by (induction p start len total_consumed ms rule: advancing.induct) auto

lemma HandleDisconnect_step:
  assumes "HandleDisconnect in_loop p c w = Inr (c', w')"
  shows "state c = kConnected \<and> c' = c\<lparr>state := kDisconnected\<rparr> \<and>
         delivered w' = delivered w @ (if on_disconnect c then [OnDisconnect p] else [])"
  using assms HandleDisconnect_keeps [OF assms]
  by (auto simp: HandleDisconnect_def split: if_splits sum.splits)

lemma HandleConnectFailed_step:
  assumes "HandleConnectFailed in_loop p c w = Inr (c', w')"
  shows "state c = kConnecting \<and> c' = c\<lparr>state := kFailed\<rparr> \<and>
         delivered w' = delivered w @
           (if on_fail c then [OnConnectFail (peer_ip c) (peer_port c)] else [])"
proof -
  let ?w1 = "if on_fail c
             then deliver (OnConnectFail (peer_ip c) (peer_port c)) (log_error ''HandleConnectFailed'' w)
             else log_error ''HandleConnectFailed'' w"
  from assms have s: "state c = kConnecting" and c': "c' = c\<lparr>state := kFailed\<rparr>"
    and u: "Unregister in_loop (Some p) (c\<lparr>state := kFailed\<rparr>) ?w1 = Inr w'"
    by (auto simp: HandleConnectFailed_def split: if_splits sum.splits)
  from Unregister_keeps [OF u] s c' show ?thesis
    by (auto simp: deliver_def log_error_def)
qed

lemma HandleConnect_step:
  assumes "HandleConnect in_loop p c w = Inr (c', w')"
  shows "(state c = kNone \<or> state c = kConnecting) \<and> state c' = kConnected \<and>
         delivered w' = delivered w @ (if on_new_conn c then [OnNewConn p] else [])"
  using assms
  by (auto simp: HandleConnect_def deliver_def split: if_splits option.splits)

lemma ActiveClose_step:
  assumes "ActiveClose True sync p c w = Inr (c', w')"
  shows "(state c = kConnected \<and> c' = c\<lparr>state := kDisconnected\<rparr> \<and>
          delivered w' = delivered w @ (if on_disconnect c then [OnDisconnect p] else [])) \<or>
         (state c \<noteq> kConnected \<and> c' = c \<and> w' = w)"
proof (cases "state c = kConnected")
  case True
  with assms have "HandleDisconnect True p c w = Inr (c', w')" by (simp add: ActiveClose_def)
  from HandleDisconnect_step [OF this] show ?thesis by simp
next
  case False
  with assms show ?thesis by (simp add: ActiveClose_def)
qed

lemma OnRecvData_step:
  assumes "OnRecvData in_loop now p c w = Inr (c', w')"
  shows "\<exists>ms. (\<forall>d\<in>set ms. \<exists>v n. d = OnMessage p v n) \<and>
           ((state c' = state c \<and> delivered w' = delivered w @ ms) \<or>
            (state c = kConnected \<and> state c' = kDisconnected \<and>
             delivered w' = delivered w @ ms @ (if on_disconnect c then [OnDisconnect p] else [])))"
proof -
  define c1 where "c1 = (if idle_timer c \<noteq> - 1 then c\<lparr>last_active := now\<rparr> else c)"
  have c1: "state c1 = state c" "on_disconnect c1 = on_disconnect c" by (simp_all add: c1_def)
  from assms obtain b where b: "bev c = Some b" and il: in_loop
    by (auto simp: OnRecvData_def split: if_splits option.splits)
  show ?thesis
  proof (cases "input_buffer b = []")
    case True
    with assms b il have "c' = c1" "w' = w" by (auto simp: OnRecvData_def c1_def)
    then show ?thesis using c1 by (intro exI [of _ "[]"]) simp
  next
    case False
    from assms b il False obtain t err w1 where
      run: "consume (on_message c1) p (input_buffer b) (int32 (int (length (input_buffer b)))) 0 w
              = Inr (t, err, w1)"
      by (auto simp: OnRecvData_def c1_def [symmetric] Let_def split: sum.splits)
    define c2 where "c2 = (if t > 0 then c1\<lparr>bev := Some (b\<lparr>input_buffer := drop (nat t) (input_buffer b)\<rparr>)\<rparr>
                           else c1)"
    have c2: "state c2 = state c" "on_disconnect c2 = on_disconnect c" using c1 by (simp_all add: c2_def)
    from assms b il False run
    have step: "(if err then HandleDisconnect in_loop p c2 w1 else Inr (c2, w1)) = Inr (c', w')"
      by (auto simp: OnRecvData_def c1_def [symmetric] Let_def c2_def split: if_splits)
    from consume_props [OF run] obtain ms where
      ms: "delivered w1 = delivered w @ ms" "advancing p (input_buffer b)
             (int32 (int (length (input_buffer b)))) 0 ms"
      by auto
    note m = advancing_messages [OF ms(2)]
    show ?thesis
    proof (cases err)
      case False
      with step have "c' = c2" "w' = w1" by simp_all
      then show ?thesis using m ms c2 by (intro exI [of _ ms]) simp
    next
      case True
      with step have "HandleDisconnect in_loop p c2 w1 = Inr (c', w')" by simp
      from HandleDisconnect_step [OF this] show ?thesis
        using m ms c2 by (intro exI [of _ ms]) auto
    qed
  qed
qed

lemma OnEvent_step:
  assumes "OnEvent True p events c w = Inr (c', w')"
  shows "(state c = kConnecting \<and> state c' = kConnected \<and>
          delivered w' = delivered w @ (if on_new_conn c then [OnNewConn p] else [])) \<or>
         (state c = kConnecting \<and> state c' = kFailed \<and>
          delivered w' = delivered w @
            (if on_fail c then [OnConnectFail (peer_ip c) (peer_port c)] else [])) \<or>
         (state c = kConnected \<and> state c' = kDisconnected \<and>
          delivered w' = delivered w @ (if on_disconnect c then [OnDisconnect p] else [])) \<or>
         (state c' = state c \<and> delivered w' = delivered w)"
proof (cases "state c")
  case kConnecting
  show ?thesis
  proof (cases "and events BEV_EVENT_CONNECTED \<noteq> 0")
    case True
    with assms kConnecting have "HandleConnect True p c w = Inr (c', w')" by (simp add: OnEvent_def)
    from HandleConnect_step [OF this] kConnecting show ?thesis by simp
  next
    case False
    with assms kConnecting have "HandleConnectFailed True p c w = Inr (c', w')"
      by (simp add: OnEvent_def)
    from HandleConnectFailed_step [OF this] show ?thesis by simp
  qed
next
  case kConnected
  show ?thesis
  proof (cases "and events BEV_EVENT_EOF \<noteq> 0")
    case True
    with assms kConnected have "HandleDisconnect True p c w = Inr (c', w')" by (simp add: OnEvent_def)
    from HandleDisconnect_step [OF this] show ?thesis by simp
  next
    case False
    with assms kConnected show ?thesis by (simp add: OnEvent_def)
  qed
next
  case kNone
  with assms show ?thesis by (auto simp: OnEvent_def log_error_def)
next
  case kDisconnected
  with assms show ?thesis by (auto simp: OnEvent_def log_error_def)
next
  case kFailed
  with assms show ?thesis by (auto simp: OnEvent_def log_error_def)
qed

lemma conn_step_closing:
  assumes "conn_step e p c w = Inr (c', w')"
  shows "\<exists>ds. delivered w' = delivered w @ ds \<and>
           (if terminal (state c)
            then state c' = state c \<and> (\<forall>d\<in>set ds. \<exists>v n. d = OnMessage p v n)
            else length (filter closing ds) \<le> 1 \<and> (filter closing ds \<noteq> [] \<longrightarrow> terminal (state c')))"
proof (cases e)
  case (BevEvent events)
  show ?thesis
  proof (cases "\<exists>b. bev c = Some b \<and> eventcb b")
    case False
    with assms BevEvent have "c' = c" "w' = w" by (auto split: option.splits if_splits)
    then show ?thesis by (intro exI [of _ "[]"]) simp
  next
    case True
    with assms BevEvent have "OnEvent True p events c w = Inr (c', w')" by auto
    from OnEvent_step [OF this] show ?thesis
      by (elim disjE conjE) (auto simp: terminal_def)
  qed
next
  case (BevRead now bytes)
  show ?thesis
  proof (cases "\<exists>b. bev c = Some b \<and> readcb b \<and> read_enabled b")
    case False
    with assms BevRead have "c' = c" "w' = w" by (auto split: option.splits if_splits)
    then show ?thesis by (intro exI [of _ "[]"]) simp
  next
    case True
    then obtain b where b: "bev c = Some b" "readcb b" "read_enabled b" by auto
    let ?c = "c\<lparr>bev := Some (b\<lparr>input_buffer := input_buffer b @ bytes\<rparr>)\<rparr>"
    from assms BevRead b have "OnRecvData True now p ?c w = Inr (c', w')" by simp
    from OnRecvData_step [OF this] obtain ms where
      m: "\<forall>d\<in>set ms. \<exists>v n. d = OnMessage p v n" and
      d: "(state c' = state c \<and> delivered w' = delivered w @ ms) \<or>
          (state c = kConnected \<and> state c' = kDisconnected \<and>
           delivered w' = delivered w @ ms @ (if on_disconnect c then [OnDisconnect p] else []))"
      by auto
    from m have f: "filter closing ms = []" by (auto simp: filter_empty_conv)
    from d show ?thesis
    proof
      assume "state c' = state c \<and> delivered w' = delivered w @ ms"
      then show ?thesis using m f by (intro exI [of _ ms]) simp
    next
      assume a: "state c = kConnected \<and> state c' = kDisconnected \<and>
           delivered w' = delivered w @ ms @ (if on_disconnect c then [OnDisconnect p] else [])"
      then show ?thesis using f
        by (intro exI [of _ "ms @ (if on_disconnect c then [OnDisconnect p] else [])"])
           (simp add: terminal_def)
    qed
  qed
next
  case (Close sync)
  with assms have "ActiveClose True sync p c w = Inr (c', w')" by simp
  from ActiveClose_step [OF this] show ?thesis
  proof
    assume "state c = kConnected \<and> c' = c\<lparr>state := kDisconnected\<rparr> \<and>
          delivered w' = delivered w @ (if on_disconnect c then [OnDisconnect p] else [])"
    then show ?thesis
      by (intro exI [of _ "if on_disconnect c then [OnDisconnect p] else []"]) (simp add: terminal_def)
  next
    assume "state c \<noteq> kConnected \<and> c' = c \<and> w' = w"
    then show ?thesis by (intro exI [of _ "[]"]) simp
  qed
next
  case (IdleFire now)
  have k: "delivered (snd (CheckIdleTimeout now c w)) = delivered w"
    by (simp add: CheckIdleTimeout_def log_warn_def)
  show ?thesis
  proof (cases "fst (CheckIdleTimeout now c w)")
    case False
    with assms IdleFire have "c' = c" "w' = snd (CheckIdleTimeout now c w)" by auto
    then show ?thesis using k by (intro exI [of _ "[]"]) simp
  next
    case True
    with assms IdleFire
    have "ActiveClose True False p c (snd (CheckIdleTimeout now c w)) = Inr (c', w')" by simp
    from ActiveClose_step [OF this] show ?thesis
    proof
      assume "state c = kConnected \<and> c' = c\<lparr>state := kDisconnected\<rparr> \<and>
          delivered w' = delivered (snd (CheckIdleTimeout now c w)) @
            (if on_disconnect c then [OnDisconnect p] else [])"
      then show ?thesis using k
        by (intro exI [of _ "if on_disconnect c then [OnDisconnect p] else []"])
           (simp add: terminal_def)
    next
      assume "state c \<noteq> kConnected \<and> c' = c \<and> w' = snd (CheckIdleTimeout now c w)"
      then show ?thesis using k by (intro exI [of _ "[]"]) simp
    qed
  qed
qed

lemma conn_run_closing:
  "conn_run es p c w = Inr (c', w') \<Longrightarrow>
   \<exists>ds. delivered w' = delivered w @ ds \<and>
        length (filter closing ds) \<le> (if terminal (state c) then 0 else 1) \<and>
        (terminal (state c) \<longrightarrow> state c' = state c)"
proof (induction es arbitrary: c w)
  case Nil
  then show ?case by (intro exI [of _ "[]"]) simp
next
  case (Cons e es)
  from Cons.prems obtain c1 w1 where
    s: "conn_step e p c w = Inr (c1, w1)" and r: "conn_run es p c1 w1 = Inr (c', w')"
    by (auto split: sum.splits)
  from conn_step_closing [OF s] obtain ds1 where
    d1: "delivered w1 = delivered w @ ds1" and
    k1: "if terminal (state c)
         then state c1 = state c \<and> (\<forall>d\<in>set ds1. \<exists>v n. d = OnMessage p v n)
         else length (filter closing ds1) \<le> 1 \<and> (filter closing ds1 \<noteq> [] \<longrightarrow> terminal (state c1))"
    by auto
  from Cons.IH [OF r] obtain ds2 where
    d2: "delivered w' = delivered w1 @ ds2" and
    k2: "length (filter closing ds2) \<le> (if terminal (state c1) then 0 else 1)" and
    t2: "terminal (state c1) \<longrightarrow> state c' = state c1"
    by auto
  show ?case
  proof (cases "terminal (state c)")
    case True
    with k1 have "state c1 = state c" and "filter closing ds1 = []"
      by (auto simp: filter_empty_conv)
    with True k2 t2 d1 d2 show ?thesis by (intro exI [of _ "ds1 @ ds2"]) simp
  next
    case False
    with k1 have a: "length (filter closing ds1) \<le> 1"
      and b: "filter closing ds1 \<noteq> [] \<longrightarrow> terminal (state c1)" by simp_all
    show ?thesis
    proof (cases "filter closing ds1 = []")
      case True
      with k2 d1 d2 False show ?thesis
        by (intro exI [of _ "ds1 @ ds2"]) (auto split: if_splits)
    next
      case ne: False
      with b have "terminal (state c1)" by simp
      with k2 have "filter closing ds2 = []" by simp
      with a d1 d2 False show ?thesis by (intro exI [of _ "ds1 @ ds2"]) simp
    qed
  qed
qed

lemma connecting_reached:
  "\<exists>w. EventLoop_Connect True 7 0 ''127.0.0.1'' 80 True True True 0 9 (start_world 3 0) =
          Some (Inr (Some 7, w)) \<and>
       connecting_world = w\<lparr>held := insert 7 (held w)\<rparr>"
proof -
  have "connecting_world =
     ((start_world 3 0)\<lparr>obj_id_generator := 1,
        loop := (new_EventLoop 3)\<lparr>objects := [1 \<mapsto> 7]\<rparr>,
        heap := [7 \<mapsto> (new_TcpObject 0)\<lparr>unique_id := 1, fd := 9, state := kConnecting,
                   bev := Some (new_bufferevent\<lparr>eventcb := True\<rparr>),
                   peer_ip := ''127.0.0.1'', peer_port := 80,
                   on_fail := True, on_new_conn := True\<rparr>]\<rparr>)\<lparr>held := insert 7
       (held ((start_world 3 0 :: (64 word, nat) world)\<lparr>obj_id_generator := 1,
        loop := (new_EventLoop 3)\<lparr>objects := [1 \<mapsto> 7]\<rparr>,
        heap := [7 \<mapsto> (new_TcpObject 0)\<lparr>unique_id := 1, fd := 9, state := kConnecting,
                   bev := Some (new_bufferevent\<lparr>eventcb := True\<rparr>),
                   peer_ip := ''127.0.0.1'', peer_port := 80,
                   on_fail := True, on_new_conn := True\<rparr>]\<rparr>))\<rparr>"
    by (simp add: connecting_world_def connecting_conn_def start_world_def)
  with Connect_start show ?thesis by blast
qed

text \<open>
  C2 fails on the code. A connection whose handle is kept is connected, closed with
  \<^verbatim>\<open>ActiveClose\<close> and so \<open>kDisconnected\<close> and out of the registry, with its
  disconnect callback delivered; bytes that arrive afterwards still reach the message
  callback, because \<^verbatim>\<open>OnRecvData\<close> does not look at the state and nothing has disabled
  the \<^verbatim>\<open>bufferevent\<close>. When the callback then reports a fatal error, the assertion of
  \<^verbatim>\<open>HandleDisconnect\<close> fails.
\<close>

theorem message_after_disconnect:
  "conn_run [BevEvent BEV_EVENT_CONNECTED, Close False, BevRead 5 [1, 2, 3]] 7
     (SetOnDisconnect (SetMessageCallback consume_all connecting_conn)) connecting_world =
   Inr ((SetOnDisconnect (SetMessageCallback consume_all connecting_conn))\<lparr>state := kDisconnected,
           bev := Some (new_bufferevent\<lparr>readcb := True, eventcb := True, read_enabled := True\<rparr>)\<rparr>,
        connecting_world\<lparr>loop := (new_EventLoop 3)\<lparr>objects := Map.empty\<rparr>,
           delivered := [OnNewConn 7, OnDisconnect 7, OnMessage 7 [1, 2, 3] 3]\<rparr>) \<and>
   conn_run [BevEvent BEV_EVENT_CONNECTED, Close False, BevRead 5 [1, 2, 3], BevRead 6 [4]] 7
     (SetOnDisconnect (SetMessageCallback three_then_fatal connecting_conn)) connecting_world =
   Inl AssertFailed"
  by (simp add: OnEvent_def HandleConnect_def ActiveClose_def HandleDisconnect_def Unregister_def
        reactor_Unregister_def OnRecvData_def consume_Some SetOnDisconnect_def SetMessageCallback_def
        connecting_conn_def connecting_world_def new_TcpObject_def start_world_def new_EventLoop_def
        new_LibeventReactor_def new_bufferevent_def consume_all_def three_then_fatal_def deliver_def
        BEV_EVENT_CONNECTED_def int32_def INT_MAX_def Let_def)

end
